theory Spec2Isabelle
  imports Complex_Main "HOL-Library.Sublist"
begin

text \<open>
  The Flux interpreter of \<^verbatim>\<open>src/lang/flux.js\<close>: \<^verbatim>\<open>lexer\<close>, \<^verbatim>\<open>parser\<close>, \<^verbatim>\<open>Interpreter.eval\<close>,
  the table \<^verbatim>\<open>builtInFunctions\<close> and \<^verbatim>\<open>executeFlux\<close>, as functions on strings, token
  lists and trees. A \<^verbatim>\<open>throw\<close> is a result \<open>Inl\<close>; the interpreter's environment, the
  console and the rest of the host are a state that \<open>eval\<close> takes and returns. The
  listener that runs \<^verbatim>\<open>executeFlux\<close> on the \<^verbatim>\<open><flux>\<close> elements of a page is not part of
  the model.
\<close>

section \<open>Lexer\<close>

text \<open>
  The source scans its input with one global regular expression,
  \<^verbatim>\<open>/\s*([A-Za-z_]\w*|\d+(\.\d+)?|"[^"]*"|'[^']*'|[+\-*/=();,{}<>]|==|!=|<=|>=|&&|\|\||!)\s*/g\<close>,
  and collects capture group 1 of every successive \<^verbatim>\<open>exec\<close>.
  Source strings are sequences of UTF-16 code units; the model covers the strings
  whose code units are below 256 and represents each code unit by one \<^typ>\<open>char\<close>.
  On that range \<^verbatim>\<open>\s\<close> is tab, line feed, vertical tab, form feed, carriage return,
  space and no-break space, \<^verbatim>\<open>\d\<close> is \<^verbatim>\<open>[0-9]\<close> and \<^verbatim>\<open>\w\<close> is \<^verbatim>\<open>[A-Za-z0-9_]\<close>.
\<close>

definition is_space :: "char \<Rightarrow> bool" where
  "is_space c = (of_char c \<in> {9, 10, 11, 12, 13, 32, 160 :: nat})"

definition is_digit :: "char \<Rightarrow> bool" where
  "is_digit c = (48 \<le> (of_char c :: nat) \<and> (of_char c :: nat) \<le> 57)"

definition is_word_start :: "char \<Rightarrow> bool" where
  "is_word_start c =
     ((65 \<le> (of_char c :: nat) \<and> (of_char c :: nat) \<le> 90) \<or>
      (97 \<le> (of_char c :: nat) \<and> (of_char c :: nat) \<le> 122) \<or> c = CHR ''_'')"

definition is_word :: "char \<Rightarrow> bool" where
  "is_word c = (is_word_start c \<or> is_digit c)"

definition is_punct :: "char \<Rightarrow> bool" where
  "is_punct c = (c \<in> set ''+-*/=();,{}<>'')"

type_synonym alt = "string \<Rightarrow> (string \<times> string) option"

text \<open>
  Each alternative of the capture group, tried at the head of the remaining input:
  it yields the matched token and the rest, or \<open>None\<close> when it does not match there.
\<close>

definition ident_alt :: alt where
  "ident_alt s =
     (case s of
        [] \<Rightarrow> None
      | c # r \<Rightarrow> if is_word_start c then Some (c # takeWhile is_word r, dropWhile is_word r)
                 else None)"

definition number_alt :: alt where
  "number_alt s =
     (let ds = takeWhile is_digit s; r = dropWhile is_digit s in
      if ds = [] then None
      else (case r of
              [] \<Rightarrow> Some (ds, r)
            | d # r' \<Rightarrow>
                if d = CHR ''.'' \<and> takeWhile is_digit r' \<noteq> []
                then Some (ds @ d # takeWhile is_digit r', dropWhile is_digit r')
                else Some (ds, r)))"

definition quoted_alt :: "char \<Rightarrow> alt" where
  "quoted_alt q s =
     (case s of
        [] \<Rightarrow> None
      | c # r \<Rightarrow>
          if c = q \<and> q \<in> set r
          then Some (c # takeWhile (\<lambda>x. x \<noteq> q) r @ [q], tl (dropWhile (\<lambda>x. x \<noteq> q) r))
          else None)"

definition punct_alt :: alt where
  "punct_alt s =
     (case s of [] \<Rightarrow> None | c # r \<Rightarrow> if is_punct c then Some ([c], r) else None)"

definition literal_alt :: "string \<Rightarrow> alt" where
  "literal_alt lit s = (if prefix lit s then Some (lit, drop (length lit) s) else None)"

fun first_alt :: "alt list \<Rightarrow> alt" where
  "first_alt [] s = None"
| "first_alt (a # as) s = (case a s of Some m \<Rightarrow> Some m | None \<Rightarrow> first_alt as s)"

definition token_alts :: "alt list" where
  "token_alts =
     [ident_alt, number_alt, quoted_alt (CHR 0x22), quoted_alt (CHR 0x27), punct_alt,
      literal_alt ''=='', literal_alt ''!='', literal_alt ''<='', literal_alt ''>='',
      literal_alt ''&&'', literal_alt ''||'', literal_alt ''!'']"

text \<open>
  One attempt of the whole pattern at the head of \<open>s\<close>. The leading \<^verbatim>\<open>\s*\<close> is greedy
  and never has to give characters back, because no alternative can start with a
  white-space character; the trailing \<^verbatim>\<open>\s*\<close> always succeeds.
\<close>

definition match_here :: alt where
  "match_here s =
     (case first_alt token_alts (dropWhile is_space s) of
        None \<Rightarrow> None
      | Some (tok, r) \<Rightarrow> Some (tok, dropWhile is_space r))"

lemma first_alt_shorter:
  assumes "first_alt as s = Some (tok, r)"
    and "\<And>a t r'. a \<in> set as \<Longrightarrow> a s = Some (t, r') \<Longrightarrow> length r' < length s"
  shows "length r < length s"
  using assms by (induction as) (auto split: option.splits)

lemma ident_alt_shorter: "ident_alt s = Some (t, r) \<Longrightarrow> length r < length s"
  by (cases s) (auto simp: ident_alt_def le_imp_less_Suc length_dropWhile_le split: if_splits)

lemma dropWhile_shorter:
  assumes "takeWhile P s \<noteq> []"
  shows "length (dropWhile P s) < length s"
proof -
  have "length (takeWhile P s) + length (dropWhile P s) = length s"
    by (metis length_append takeWhile_dropWhile_id)
  moreover have "0 < length (takeWhile P s)"
    using assms by simp
  ultimately show ?thesis by linarith
qed

lemma number_alt_shorter:
  assumes "number_alt s = Some (t, r)"
  shows "length r < length s"
proof -
  let ?r = "dropWhile is_digit s"
  from assms have ne: "takeWhile is_digit s \<noteq> []"
    by (auto simp: number_alt_def Let_def split: if_splits)
  then have less: "length ?r < length s"
    by (rule dropWhile_shorter)
  from assms ne have "r = ?r \<or> (\<exists>d r'. ?r = d # r' \<and> r = dropWhile is_digit r')"
    by (auto simp: number_alt_def Let_def split: if_splits list.splits)
  then show ?thesis
  proof
    assume "r = ?r"
    with less show ?thesis by simp
  next
    assume "\<exists>d r'. ?r = d # r' \<and> r = dropWhile is_digit r'"
    then obtain d r' where eq: "?r = d # r'" and r: "r = dropWhile is_digit r'"
      by blast
    have "length r \<le> length r'"
      unfolding r by (rule length_dropWhile_le)
    moreover have "length r' < length ?r"
      by (simp add: eq)
    ultimately show ?thesis
      using less by linarith
  qed
qed

lemma quoted_alt_shorter: "quoted_alt q s = Some (t, r) \<Longrightarrow> length r < length s"
proof (cases s)
  case Nil
  assume "quoted_alt q s = Some (t, r)"
  with Nil show ?thesis by (simp add: quoted_alt_def)
next
  case (Cons c cs)
  assume "quoted_alt q s = Some (t, r)"
  with Cons have r: "r = tl (dropWhile (\<lambda>x. x \<noteq> q) cs)"
    by (auto simp: quoted_alt_def split: if_splits)
  have "length r \<le> length (dropWhile (\<lambda>x. x \<noteq> q) cs)"
    unfolding r by simp
  also have "\<dots> \<le> length cs"
    by (rule length_dropWhile_le)
  finally show ?thesis
    using Cons by simp
qed

lemma punct_alt_shorter: "punct_alt s = Some (t, r) \<Longrightarrow> length r < length s"
  by (cases s) (auto simp: punct_alt_def split: if_splits)

lemma literal_alt_shorter:
  "lit \<noteq> [] \<Longrightarrow> literal_alt lit s = Some (t, r) \<Longrightarrow> length r < length s"
  by (auto simp: literal_alt_def prefix_def split: if_splits)

lemma token_alts_shorter:
  assumes "a \<in> set token_alts" and "a s = Some (t, r)"
  shows "length r < length s"
  using assms ident_alt_shorter [of s t r] number_alt_shorter [of s t r]
    quoted_alt_shorter [of _ s t r] punct_alt_shorter [of s t r]
    literal_alt_shorter [of _ s t r]
  unfolding token_alts_def by auto

lemma match_here_shorter:
  assumes "match_here s = Some (tok, r)"
  shows "length r < length s"
proof -
  from assms obtain r0 where f: "first_alt token_alts (dropWhile is_space s) = Some (tok, r0)"
    and r: "r = dropWhile is_space r0"
    by (auto simp: match_here_def split: option.splits)
  have "length r0 < length (dropWhile is_space s)"
    using first_alt_shorter [OF f] token_alts_shorter by blast
  then show ?thesis
    unfolding r
    using length_dropWhile_le [of is_space s] length_dropWhile_le [of is_space r0] by linarith
qed

text \<open>
  The \<^verbatim>\<open>while ((match = tokenPattern.exec(input)) !== null)\<close> loop. The pattern is global
  and not sticky, so \<^verbatim>\<open>exec\<close> searches forward from \<^verbatim>\<open>lastIndex\<close>: where the pattern does
  not match at the current position it is tried one position further, and \<^verbatim>\<open>exec\<close> is
  \<^verbatim>\<open>null\<close> only when no position up to the end of the input matches.
\<close>

function lexer :: "string \<Rightarrow> string list" where
  "lexer [] = []"
| "lexer (c # cs) =
     (case match_here (c # cs) of
        None \<Rightarrow> lexer cs
      | Some (tok, r) \<Rightarrow> tok # lexer r)"
  by pat_completeness auto
termination
  by (relation "measure length") (auto dest: match_here_shorter)


section \<open>Values\<close>

text \<open>
  A source number is an IEEE-754 double. \<open>Fin q\<close> is the finite double of value \<open>q\<close>
  (\<open>Fin 0\<close> is positive zero); negative zero, the infinities and NaN are separate.
  Every integer of magnitude at most \<open>2^53\<close> is a double, so an operation whose exact
  result is such an integer yields it unrounded. How any other real is rounded to a
  double is left to the parameter \<open>rnd\<close> of the definitions that need it.
\<close>

datatype num = Fin rat | NegZero | PosInf | NegInf | NaN

definition safe_int :: "rat \<Rightarrow> bool" where
  "safe_int q = (of_int \<lfloor>q\<rfloor> = q \<and> \<bar>q\<bar> \<le> 9007199254740992)"

definition to_double :: "(rat \<Rightarrow> num) \<Rightarrow> rat \<Rightarrow> num" where
  "to_double rnd q = (if safe_int q then Fin q else rnd q)"

text \<open>The properties of \<^verbatim>\<open>builtInFunctions\<close>, in the order of the source.\<close>

datatype builtin =
    BPrint | BLen | BSqrt | BPow | BAbs | BInt | BFloat | BStr | BUpper | BLower
  | BRandom | BInput | BType | BRound | BToString | BParseInt | BParseFloat | BIsNaN
  | BSlice | BConcat

datatype val = VNum num | VStr string | VBool bool | VNull | VUndefined | VFun builtin

text \<open>
  \<^verbatim>\<open>throw new Error(msg)\<close> of the source is \<open>Error msg\<close>; \<open>NativeTypeError\<close> is the
  TypeError the engine itself raises (a property read or a method call on
  \<^verbatim>\<open>undefined\<close> or \<^verbatim>\<open>null\<close>), \<open>NativeError\<close> any other exception of a native function.
\<close>

datatype error = Error string | NativeTypeError | NativeError string

section \<open>Keyword table\<close>

definition keyword_table :: "string list" where
  "keyword_table =
     [''if'', ''else'', ''elseif'', ''switch'', ''case'', ''default'', ''while'', ''for'',
      ''break'', ''continue'', ''return'',
      ''let'', ''const'', ''var'', ''mutable'', ''static'',
      ''function'', ''fn'', ''lambda'', ''async'', ''await'',
      ''int'', ''float'', ''string'', ''bool'', ''object'', ''array'', ''enum'', ''class'',
      ''try'', ''catch'', ''finally'', ''throw'',
      ''and'', ''or'', ''not'', ''is'', ''in'', ''mod'',
      ''import'', ''export'', ''package'', ''module'', ''include'',
      ''class'', ''extends'', ''super'', ''this'', ''interface'', ''abstract'',
      ''true'', ''false'', ''null'', ''new'', ''delete'']"

definition isKeyword :: "string \<Rightarrow> bool" where
  "isKeyword word = (word \<in> set keyword_table)"

section \<open>String to number conversion\<close>

text \<open>
  \<^verbatim>\<open>isNaN(token)\<close> and \<^verbatim>\<open>Number(token)\<close> in \<^verbatim>\<open>parsePrimary\<close> convert the token with the
  language's string-to-number grammar: white space is trimmed, the empty string is 0,
  and the rest must be a signed decimal literal (\<^verbatim>\<open>Infinity\<close>, digits with an optional
  fraction and exponent) or an unsigned binary, octal or hexadecimal integer literal;
  anything else is NaN.
\<close>

datatype strnum = SInf bool | SVal bool rat

definition digit_of :: "char \<Rightarrow> nat" where
  "digit_of c =
     (let n = (of_char c :: nat) in
      if 48 \<le> n \<and> n \<le> 57 then n - 48
      else if 97 \<le> n \<and> n \<le> 102 then n - 87
      else if 65 \<le> n \<and> n \<le> 70 then n - 55
      else 16)"

definition digits_in :: "nat \<Rightarrow> string \<Rightarrow> bool" where
  "digits_in base s = (s \<noteq> [] \<and> list_all (\<lambda>c. digit_of c < base) s)"

definition digits_val :: "nat \<Rightarrow> string \<Rightarrow> nat" where
  "digits_val base s = foldl (\<lambda>acc c. acc * base + digit_of c) 0 s"

definition js_trim :: "string \<Rightarrow> string" where
  "js_trim s = rev (dropWhile is_space (rev (dropWhile is_space s)))"

definition scale10 :: "nat \<Rightarrow> int \<Rightarrow> rat" where
  "scale10 m k = (if 0 \<le> k then of_nat m * 10 ^ nat k else of_nat m / 10 ^ nat (- k))"

definition exponent_part :: "string \<Rightarrow> int option" where
  "exponent_part s =
     (case s of
        [] \<Rightarrow> Some 0
      | e # r \<Rightarrow>
          if e = CHR ''e'' \<or> e = CHR ''E'' then
            (case r of
               [] \<Rightarrow> None
             | c # r' \<Rightarrow>
                 if c = CHR ''+'' then (if digits_in 10 r' then Some (int (digits_val 10 r')) else None)
                 else if c = CHR ''-'' then (if digits_in 10 r' then Some (- int (digits_val 10 r')) else None)
                 else (if digits_in 10 r then Some (int (digits_val 10 r)) else None))
          else None)"

definition unsigned_decimal :: "string \<Rightarrow> rat option" where
  "unsigned_decimal s =
     (let ip = takeWhile is_digit s; r1 = dropWhile is_digit s;
          dot = (r1 \<noteq> [] \<and> hd r1 = CHR ''.'');
          fp = (if dot then takeWhile is_digit (tl r1) else []);
          r2 = (if dot then dropWhile is_digit (tl r1) else r1)
      in if ip = [] \<and> fp = [] then None
         else (case exponent_part r2 of
                 None \<Rightarrow> None
               | Some k \<Rightarrow> Some (scale10 (digits_val 10 (ip @ fp)) (k - int (length fp)))))"

definition decimal_literal :: "string \<Rightarrow> strnum option" where
  "decimal_literal s =
     (let neg = (s \<noteq> [] \<and> hd s = CHR ''-'');
          body = (if s \<noteq> [] \<and> (hd s = CHR ''+'' \<or> hd s = CHR ''-'') then tl s else s)
      in if body = ''Infinity'' then Some (SInf neg)
         else map_option (SVal neg) (unsigned_decimal body))"

definition non_decimal_literal :: "string \<Rightarrow> strnum option" where
  "non_decimal_literal s =
     (case s of
        z # x # r \<Rightarrow>
          if z \<noteq> CHR ''0'' then None
          else if x = CHR ''x'' \<or> x = CHR ''X'' then
            (if digits_in 16 r then Some (SVal False (of_nat (digits_val 16 r))) else None)
          else if x = CHR ''o'' \<or> x = CHR ''O'' then
            (if digits_in 8 r then Some (SVal False (of_nat (digits_val 8 r))) else None)
          else if x = CHR ''b'' \<or> x = CHR ''B'' then
            (if digits_in 2 r then Some (SVal False (of_nat (digits_val 2 r))) else None)
          else None
      | _ \<Rightarrow> None)"

definition string_numeric :: "string \<Rightarrow> strnum option" where
  "string_numeric s =
     (let t = js_trim s in
      if t = [] then Some (SVal False 0)
      else (case non_decimal_literal t of
              Some v \<Rightarrow> Some v
            | None \<Rightarrow> decimal_literal t))"

definition isNaN_string :: "string \<Rightarrow> bool" where
  "isNaN_string s = (string_numeric s = None)"

definition Number_string :: "(rat \<Rightarrow> num) \<Rightarrow> string \<Rightarrow> num" where
  "Number_string rnd s =
     (case string_numeric s of
        None \<Rightarrow> NaN
      | Some (SInf neg) \<Rightarrow> (if neg then NegInf else PosInf)
      | Some (SVal neg q) \<Rightarrow>
          if q = 0 then (if neg then NegZero else Fin 0)
          else to_double rnd (if neg then - q else q))"


section \<open>Parser\<close>

text \<open>
  A node is the object literal the parser builds; its constructor stands for the
  \<^verbatim>\<open>type\<close> property (\<open>node_type\<close>) and carries the other properties.
\<close>

datatype node =
    NumberNode num
  | StringNode string
  | LiteralNode val
  | KeywordNode string
  | VariableNode string
  | CallNode node "node list"
  | BinaryNode string node node
  | VarDecl string string node
  | ExprStmt node

fun node_type :: "node \<Rightarrow> string" where
  "node_type (NumberNode v) = ''number''"
| "node_type (StringNode s) = ''string''"
| "node_type (LiteralNode v) = ''literal''"
| "node_type (KeywordNode w) = ''keyword''"
| "node_type (VariableNode x) = ''variable''"
| "node_type (CallNode c as) = ''call''"
| "node_type (BinaryNode operator l r) = ''binary''"
| "node_type (VarDecl kind name e) = ''var_decl''"
| "node_type (ExprStmt e) = ''expr_stmt''"

text \<open>
  The parser's state is the position \<open>pos\<close> in the token array. A parsing function
  returns the value it built with the new position, or the error it throws with the
  position at the throw.
\<close>

type_synonym 'a presult = "(error \<times> nat) + ('a \<times> nat)"

definition peek :: "string list \<Rightarrow> nat \<Rightarrow> string option" where
  "peek tokens pos = (if pos < length tokens then Some (tokens ! pos) else None)"

definition token_text :: "string option \<Rightarrow> string" where
  "token_text t = (case t of None \<Rightarrow> ''undefined'' | Some s \<Rightarrow> s)"

text \<open>
  \<^verbatim>\<open>consume(expected)\<close>; \<open>None\<close> is a call without argument. An empty \<^verbatim>\<open>expected\<close> is
  falsy and checks nothing.
\<close>

definition consume :: "string option \<Rightarrow> string list \<Rightarrow> nat \<Rightarrow> string option presult" where
  \<open>consume expected tokens pos =
     (let token = peek tokens pos in
      case expected of
        None \<Rightarrow> Inr (token, pos + 1)
      | Some e \<Rightarrow>
          if e \<noteq> [] \<and> token \<noteq> Some e
          then Inl (Error (''Expected "'' @ e @ ''" but got "'' @ token_text token @ ''"''), pos)
          else Inr (token, pos + 1))\<close>

definition parsePrimary :: "(rat \<Rightarrow> num) \<Rightarrow> string list \<Rightarrow> nat \<Rightarrow> node presult" where
  "parsePrimary rnd tokens pos =
     (case peek tokens pos of
        None \<Rightarrow> Inl (Error ''Unexpected end of input'', pos)
      | Some token \<Rightarrow>
          if token = [] then Inl (Error ''Unexpected end of input'', pos)
          else if \<not> isNaN_string token then Inr (NumberNode (Number_string rnd token), pos + 1)
          else if hd token = CHR 0x22 \<or> hd token = CHR 0x27
            then Inr (StringNode (butlast (tl token)), pos + 1)
          else if isKeyword token then
            (if token = ''true'' \<or> token = ''false'' \<or> token = ''null''
             then Inr (LiteralNode (if token = ''true'' then VBool True
                                    else if token = ''false'' then VBool False else VNull),
                       pos + 1)
             else Inr (KeywordNode token, pos + 1))
          else Inr (VariableNode token, pos + 1))"

text \<open>
  The mutually recursive functions take a bound on the depth of their calls as first
  argument, each loop iteration counting as a call; \<open>None\<close> is the bound exceeded.
\<close>

definition bindP :: "'a presult option \<Rightarrow> ('a \<Rightarrow> nat \<Rightarrow> 'b presult option) \<Rightarrow> 'b presult option" where
  "bindP m f =
     (case m of
        None \<Rightarrow> None
      | Some (Inl e) \<Rightarrow> Some (Inl e)
      | Some (Inr (x, pos)) \<Rightarrow> f x pos)"

definition binary_operators :: "string list" where
  "binary_operators = [''+'', ''-'', ''*'', ''/'', ''=='', ''!='']"

function (sequential) parseCall :: "nat \<Rightarrow> (rat \<Rightarrow> num) \<Rightarrow> string list \<Rightarrow> nat \<Rightarrow> node presult option"
  and call_loop :: "nat \<Rightarrow> (rat \<Rightarrow> num) \<Rightarrow> string list \<Rightarrow> node \<Rightarrow> nat \<Rightarrow> node presult option"
  and args_loop :: "nat \<Rightarrow> (rat \<Rightarrow> num) \<Rightarrow> string list \<Rightarrow> node list \<Rightarrow> nat \<Rightarrow> node list presult option"
  and parseExpression :: "nat \<Rightarrow> (rat \<Rightarrow> num) \<Rightarrow> string list \<Rightarrow> nat \<Rightarrow> node presult option"
  and expression_loop :: "nat \<Rightarrow> (rat \<Rightarrow> num) \<Rightarrow> string list \<Rightarrow> node \<Rightarrow> nat \<Rightarrow> node presult option"
where
  "parseCall 0 rnd tokens pos = None"
| "parseCall (Suc n) rnd tokens pos =
     bindP (Some (parsePrimary rnd tokens pos)) (call_loop n rnd tokens)"
| "call_loop 0 rnd tokens expr pos = None"
| "call_loop (Suc n) rnd tokens expr pos =
     (if peek tokens pos = Some ''(''
      then bindP (Some (consume (Some ''('') tokens pos)) (\<lambda>_ p1.
           bindP (if peek tokens p1 \<noteq> Some '')'' then args_loop n rnd tokens [] p1
                  else Some (Inr ([], p1))) (\<lambda>args p2.
           bindP (Some (consume (Some '')'') tokens p2)) (\<lambda>_ p3.
           call_loop n rnd tokens (CallNode expr args) p3)))
      else Some (Inr (expr, pos)))"
| "args_loop 0 rnd tokens args pos = None"
| "args_loop (Suc n) rnd tokens args pos =
     bindP (parseExpression n rnd tokens pos) (\<lambda>arg p1.
       if peek tokens p1 = Some '',''
       then bindP (Some (consume (Some '','') tokens p1)) (\<lambda>_ p2.
            args_loop n rnd tokens (args @ [arg]) p2)
       else Some (Inr (args @ [arg], p1)))"
| "parseExpression 0 rnd tokens pos = None"
| "parseExpression (Suc n) rnd tokens pos =
     bindP (parseCall n rnd tokens pos) (expression_loop n rnd tokens)"
| "expression_loop 0 rnd tokens left pos = None"
| "expression_loop (Suc n) rnd tokens left pos =
     (case peek tokens pos of
        None \<Rightarrow> Some (Inr (left, pos))
      | Some operator \<Rightarrow>
          if operator \<in> set binary_operators
          then bindP (Some (consume None tokens pos)) (\<lambda>_ p1.
               bindP (parseCall n rnd tokens p1) (\<lambda>right p2.
               expression_loop n rnd tokens (BinaryNode operator left right) p2))
          else Some (Inr (left, pos)))"
  by pat_completeness auto
termination
  by (relation "measure (\<lambda>x. case x of
          Inl (Inl (n, _)) \<Rightarrow> n
        | Inl (Inr (n, _)) \<Rightarrow> n
        | Inr (Inl (n, _)) \<Rightarrow> n
        | Inr (Inr (Inl (n, _))) \<Rightarrow> n
        | Inr (Inr (Inr (n, _))) \<Rightarrow> n)") auto

definition name_pattern :: "string \<Rightarrow> bool" where
  "name_pattern name = (name \<noteq> [] \<and> is_word_start (hd name) \<and> list_all is_word (tl name))"

definition parseStatement :: "nat \<Rightarrow> (rat \<Rightarrow> num) \<Rightarrow> string list \<Rightarrow> nat \<Rightarrow> node presult option" where
  "parseStatement n rnd tokens pos =
     (if peek tokens pos = Some ''let'' \<or> peek tokens pos = Some ''const''
         \<or> peek tokens pos = Some ''var''
      then bindP (Some (consume None tokens pos)) (\<lambda>kind p1.
           bindP (Some (consume None tokens p1)) (\<lambda>name p2.
             case name of
               None \<Rightarrow> Some (Inl (NativeTypeError, p2))
             | Some name \<Rightarrow>
                 if \<not> name_pattern name then Some (Inl (Error ''Invalid variable name'', p2))
                 else bindP (Some (consume (Some ''='') tokens p2)) (\<lambda>_ p3.
                      bindP (parseExpression n rnd tokens p3) (\<lambda>expr p4.
                      bindP (Some (consume (Some '';'') tokens p4)) (\<lambda>_ p5.
                      Some (Inr (VarDecl (token_text kind) name expr, p5)))))))
      else bindP (parseExpression n rnd tokens pos) (\<lambda>expr p1.
           bindP (Some (consume (Some '';'') tokens p1)) (\<lambda>_ p2.
           Some (Inr (ExprStmt expr, p2)))))"

fun statements_loop :: "nat \<Rightarrow> (rat \<Rightarrow> num) \<Rightarrow> string list \<Rightarrow> node list \<Rightarrow> nat \<Rightarrow> node list presult option" where
  "statements_loop 0 rnd tokens statements pos = None"
| "statements_loop (Suc n) rnd tokens statements pos =
     (if pos \<ge> length tokens then Some (Inr (statements, pos))
      else bindP (parseStatement n rnd tokens pos) (\<lambda>stmt p1.
           statements_loop n rnd tokens (statements @ [stmt]) p1))"

definition parser :: "(rat \<Rightarrow> num) \<Rightarrow> string list \<Rightarrow> node list presult option" where
  "parser rnd tokens = statements_loop (3 * length tokens + 6) rnd tokens [] 0"


section \<open>Evaluator\<close>

text \<open>
  What the source leaves to the engine is computed here where the outcome is plain and
  taken from a parameter everywhere else: \<open>rt_round\<close> rounds a real that is not an
  integer of magnitude at most \<open>2^53\<close> to a double, \<open>rt_binop\<close> is an arithmetic
  operator on operands other than two finite numbers (or, for \<^verbatim>\<open>+\<close>, two strings), and
  \<open>rt_native\<close> is a call of a built-in outside the cases of \<open>call_builtin\<close>, acting on
  the part \<open>host\<close> of the state (dialogs, the random generator).
\<close>

record 'h runtime =
  rt_round :: "rat \<Rightarrow> num"
  rt_binop :: "string \<Rightarrow> val \<Rightarrow> val \<Rightarrow> val"
  rt_native :: "builtin \<Rightarrow> val list \<Rightarrow> 'h \<Rightarrow> (error + val) \<times> 'h"

text \<open>
  The interpreter's \<^verbatim>\<open>env\<close> is an object without prototype, so \<^verbatim>\<open>name in this.env\<close>
  holds for its own keys only. \<open>console\<close> collects the argument lists passed to
  \<^verbatim>\<open>console.log\<close>.
\<close>

record 'h state =
  env :: "string \<rightharpoonup> val"
  console :: "val list list"
  host :: 'h

fun num_strict_eq :: "num \<Rightarrow> num \<Rightarrow> bool" where
  "num_strict_eq (Fin a) (Fin b) = (a = b)"
| "num_strict_eq (Fin a) NegZero = (a = 0)"
| "num_strict_eq NegZero (Fin b) = (b = 0)"
| "num_strict_eq NegZero NegZero = True"
| "num_strict_eq PosInf PosInf = True"
| "num_strict_eq NegInf NegInf = True"
| "num_strict_eq _ _ = False"

fun strict_eq :: "val \<Rightarrow> val \<Rightarrow> bool" where
  "strict_eq (VNum a) (VNum b) = num_strict_eq a b"
| "strict_eq (VStr a) (VStr b) = (a = b)"
| "strict_eq (VBool a) (VBool b) = (a = b)"
| "strict_eq VNull VNull = True"
| "strict_eq VUndefined VUndefined = True"
| "strict_eq (VFun f) (VFun g) = (f = g)"
| "strict_eq _ _ = False"

definition plus_op :: "'h runtime \<Rightarrow> val \<Rightarrow> val \<Rightarrow> val" where
  "plus_op rt l r =
     (case (l, r) of
        (VNum (Fin a), VNum (Fin b)) \<Rightarrow> VNum (to_double (rt_round rt) (a + b))
      | (VStr a, VStr b) \<Rightarrow> VStr (a @ b)
      | _ \<Rightarrow> rt_binop rt ''+'' l r)"

definition minus_op :: "'h runtime \<Rightarrow> val \<Rightarrow> val \<Rightarrow> val" where
  "minus_op rt l r =
     (case (l, r) of
        (VNum (Fin a), VNum (Fin b)) \<Rightarrow> VNum (to_double (rt_round rt) (a - b))
      | _ \<Rightarrow> rt_binop rt ''-'' l r)"

definition times_op :: "'h runtime \<Rightarrow> val \<Rightarrow> val \<Rightarrow> val" where
  "times_op rt l r =
     (case (l, r) of
        (VNum (Fin a), VNum (Fin b)) \<Rightarrow>
          if a * b = 0 then VNum (if a < 0 \<or> b < 0 then NegZero else Fin 0)
          else VNum (to_double (rt_round rt) (a * b))
      | _ \<Rightarrow> rt_binop rt ''*'' l r)"

definition divide_op :: "'h runtime \<Rightarrow> val \<Rightarrow> val \<Rightarrow> val" where
  "divide_op rt l r =
     (case (l, r) of
        (VNum (Fin a), VNum (Fin b)) \<Rightarrow>
          if b = 0 then VNum (if a = 0 then NaN else if 0 < a then PosInf else NegInf)
          else if a = 0 then VNum (if b < 0 then NegZero else Fin 0)
          else VNum (to_double (rt_round rt) (a / b))
      | _ \<Rightarrow> rt_binop rt ''/'' l r)"

text \<open>The inner \<^verbatim>\<open>switch (node.operator)\<close> of the \<^verbatim>\<open>binary\<close> case.\<close>

definition apply_operator :: "'h runtime \<Rightarrow> string \<Rightarrow> val \<Rightarrow> val \<Rightarrow> error + val" where
  "apply_operator rt operator l r =
     (if operator = ''+'' then Inr (plus_op rt l r)
      else if operator = ''-'' then Inr (minus_op rt l r)
      else if operator = ''*'' then Inr (times_op rt l r)
      else if operator = ''/'' then Inr (divide_op rt l r)
      else if operator = ''=='' then Inr (VBool (strict_eq l r))
      else if operator = ''!='' then Inr (VBool (\<not> strict_eq l r))
      else Inl (Error (''Unsupported operator '' @ operator)))"

section \<open>Built-in registry\<close>

definition builtInFunctions :: "(string \<times> builtin) list" where
  "builtInFunctions =
     [(''print'', BPrint), (''len'', BLen), (''sqrt'', BSqrt), (''pow'', BPow),
      (''abs'', BAbs), (''int'', BInt), (''float'', BFloat), (''str'', BStr),
      (''upper'', BUpper), (''lower'', BLower), (''random'', BRandom), (''input'', BInput),
      (''type'', BType), (''round'', BRound), (''toString'', BToString),
      (''parseInt'', BParseInt), (''parseFloat'', BParseFloat), (''isNaN'', BIsNaN),
      (''slice'', BSlice), (''concat'', BConcat)]"

definition is_ascii :: "char \<Rightarrow> bool" where
  "is_ascii c = ((of_char c :: nat) < 128)"

definition upper_char :: "char \<Rightarrow> char" where
  "upper_char c =
     (if 97 \<le> (of_char c :: nat) \<and> (of_char c :: nat) \<le> 122
      then char_of ((of_char c :: nat) - 32) else c)"

definition lower_char :: "char \<Rightarrow> char" where
  "lower_char c =
     (if 65 \<le> (of_char c :: nat) \<and> (of_char c :: nat) \<le> 90
      then char_of ((of_char c :: nat) + 32) else c)"

definition exact_sqrt :: "rat \<Rightarrow> rat option" where
  "exact_sqrt q =
     (if safe_int q \<and> 0 \<le> q
      then map_option of_nat (find (\<lambda>r. r * r = nat \<lfloor>q\<rfloor>) [0..<Suc (nat \<lfloor>q\<rfloor>)])
      else None)"

definition native :: "'h runtime \<Rightarrow> builtin \<Rightarrow> val list \<Rightarrow> 'h state \<Rightarrow> (error + val) \<times> 'h state" where
  "native rt f args st =
     (case rt_native rt f args (host st) of (res, h) \<Rightarrow> (res, st\<lparr>host := h\<rparr>))"

text \<open>
  \<^verbatim>\<open>callee(...args)\<close> for a built-in. Computed here: \<^verbatim>\<open>print\<close> (\<^verbatim>\<open>console.log\<close> of all
  arguments, returning \<^verbatim>\<open>undefined\<close>); \<^verbatim>\<open>len\<close>, \<^verbatim>\<open>upper\<close> and \<^verbatim>\<open>lower\<close> of a string
  (for the case conversions an ASCII one); \<^verbatim>\<open>sqrt\<close> of a perfect square, which the
  correctly rounded square root returns exactly. Further arguments are ignored by
  these functions.
\<close>

definition call_builtin :: "'h runtime \<Rightarrow> builtin \<Rightarrow> val list \<Rightarrow> 'h state \<Rightarrow> (error + val) \<times> 'h state" where
  "call_builtin rt f args st =
     (case (f, args) of
        (BPrint, _) \<Rightarrow> (Inr VUndefined, st\<lparr>console := console st @ [args]\<rparr>)
      | (BLen, VStr s # _) \<Rightarrow> (Inr (VNum (Fin (of_nat (length s)))), st)
      | (BUpper, VStr s # _) \<Rightarrow>
          if list_all is_ascii s then (Inr (VStr (map upper_char s)), st)
          else native rt f args st
      | (BLower, VStr s # _) \<Rightarrow>
          if list_all is_ascii s then (Inr (VStr (map lower_char s)), st)
          else native rt f args st
      | (BSqrt, VNum (Fin q) # _) \<Rightarrow>
          (case exact_sqrt q of
             Some r \<Rightarrow> (Inr (VNum (Fin r)), st)
           | None \<Rightarrow> native rt f args st)
      | _ \<Rightarrow> native rt f args st)"

text \<open>\<^verbatim>\<open>Interpreter.eval\<close>; \<open>eval_arguments\<close> is \<^verbatim>\<open>node.arguments.map(arg => this.eval(arg))\<close>.\<close>

fun eval :: "'h runtime \<Rightarrow> node \<Rightarrow> 'h state \<Rightarrow> (error + val) \<times> 'h state"
  and eval_arguments :: "'h runtime \<Rightarrow> node list \<Rightarrow> 'h state \<Rightarrow> (error + val list) \<times> 'h state"
where
  "eval rt (NumberNode v) st = (Inr (VNum v), st)"
| "eval rt (StringNode s) st = (Inr (VStr s), st)"
| "eval rt (LiteralNode v) st = (Inr v, st)"
| "eval rt (VariableNode name) st =
     (case env st name of
        Some v \<Rightarrow> (Inr v, st)
      | None \<Rightarrow> (Inl (Error (''Undefined variable '' @ [CHR 0x27] @ name @ [CHR 0x27])), st))"
| "eval rt (CallNode callee arguments) st =
     (case eval rt callee st of
        (Inl e, st1) \<Rightarrow> (Inl e, st1)
      | (Inr c, st1) \<Rightarrow>
          (case c of
             VFun f \<Rightarrow>
               (case eval_arguments rt arguments st1 of
                  (Inl e, st2) \<Rightarrow> (Inl e, st2)
                | (Inr args, st2) \<Rightarrow> call_builtin rt f args st2)
           | _ \<Rightarrow> (Inl (Error ''Call of non-function''), st1)))"
| "eval rt (BinaryNode operator l r) st =
     (case eval rt l st of
        (Inl e, st1) \<Rightarrow> (Inl e, st1)
      | (Inr left, st1) \<Rightarrow>
          (case eval rt r st1 of
             (Inl e, st2) \<Rightarrow> (Inl e, st2)
           | (Inr right, st2) \<Rightarrow> (apply_operator rt operator left right, st2)))"
| "eval rt (VarDecl kind name expr) st =
     (case eval rt expr st of
        (Inl e, st1) \<Rightarrow> (Inl e, st1)
      | (Inr v, st1) \<Rightarrow> (Inr VNull, st1\<lparr>env := (env st1)(name \<mapsto> v)\<rparr>))"
| "eval rt (ExprStmt expr) st = eval rt expr st"
| "eval rt (KeywordNode w) st =
     (Inl (Error (''Unknown node type '' @ node_type (KeywordNode w))), st)"
| "eval_arguments rt [] st = (Inr [], st)"
| "eval_arguments rt (arg # rest) st =
     (case eval rt arg st of
        (Inl e, st1) \<Rightarrow> (Inl e, st1)
      | (Inr v, st1) \<Rightarrow>
          (case eval_arguments rt rest st1 of
             (Inl e, st2) \<Rightarrow> (Inl e, st2)
           | (Inr vs, st2) \<Rightarrow> (Inr (v # vs), st2)))"

section \<open>Running a script\<close>

text \<open>
  \<^verbatim>\<open>executeFlux\<close>: the interpreter starts with the built-ins installed, the statements
  are evaluated in order and the first error ends the run. The result is the error, if
  any, with the interpreter as the run left it; there is no interpreter when the parser
  fails.
\<close>

definition new_interpreter :: "val list list \<Rightarrow> 'h \<Rightarrow> 'h state" where
  "new_interpreter out h =
     \<lparr>env = foldl (\<lambda>e (name, f). e(name \<mapsto> VFun f)) Map.empty builtInFunctions,
      console = out, host = h\<rparr>"

fun run_statements :: "'h runtime \<Rightarrow> node list \<Rightarrow> 'h state \<Rightarrow> error option \<times> 'h state" where
  "run_statements rt [] st = (None, st)"
| "run_statements rt (stmt # rest) st =
     (case eval rt stmt st of
        (Inl e, st1) \<Rightarrow> (Some e, st1)
      | (Inr _, st1) \<Rightarrow> run_statements rt rest st1)"

definition executeFlux :: "'h runtime \<Rightarrow> string \<Rightarrow> val list list \<Rightarrow> 'h \<Rightarrow> (error option \<times> 'h state option) option" where
  "executeFlux rt code out h =
     (case parser (rt_round rt) (lexer code) of
        None \<Rightarrow> None
      | Some (Inl (e, _)) \<Rightarrow> Some (Some e, None)
      | Some (Inr (ast, _)) \<Rightarrow>
          (case run_statements rt ast (new_interpreter out h) of
             (res, st) \<Rightarrow> Some (res, Some st)))"


section \<open>Predicates of the statements proved below\<close>

text \<open>\<^verbatim>\<open>typeof callee === "function"\<close>.\<close>

fun callable :: "val \<Rightarrow> bool" where
  "callable (VFun f) = True"
| "callable _ = False"

text \<open>A tree with a \<^verbatim>\<open>keyword\<close> node somewhere in it.\<close>

fun contains_keyword :: "node \<Rightarrow> bool"
  and contains_keyword_list :: "node list \<Rightarrow> bool"
where
  "contains_keyword (NumberNode v) = False"
| "contains_keyword (StringNode s) = False"
| "contains_keyword (LiteralNode v) = False"
| "contains_keyword (KeywordNode w) = True"
| "contains_keyword (VariableNode x) = False"
| "contains_keyword (CallNode c as) = (contains_keyword c \<or> contains_keyword_list as)"
| "contains_keyword (BinaryNode operator l r) = (contains_keyword l \<or> contains_keyword r)"
| "contains_keyword (VarDecl kind name e) = contains_keyword e"
| "contains_keyword (ExprStmt e) = contains_keyword e"
| "contains_keyword_list [] = False"
| "contains_keyword_list (n # ns) = (contains_keyword n \<or> contains_keyword_list ns)"

text \<open>
  A runtime and a state for instances of the theorems at concrete inputs, where no
  rounding, no operator outside the computed cases and no native call occurs.
\<close>

definition plain_runtime :: "unit runtime" where
  "plain_runtime =
     \<lparr>rt_round = (\<lambda>q. NaN), rt_binop = (\<lambda>operator l r. VUndefined),
      rt_native = (\<lambda>f args h. (Inr VUndefined, h))\<rparr>"

definition fresh :: "unit state" where
  "fresh = new_interpreter [] ()"


text \<open>
  The trees the parser builds: an expression has no statement node inside, and a
  statement is a declaration or an expression statement around an expression.
\<close>

fun is_expression :: "node \<Rightarrow> bool"
  and are_expressions :: "node list \<Rightarrow> bool"
where
  "is_expression (NumberNode v) = True"
| "is_expression (StringNode s) = True"
| "is_expression (LiteralNode v) = True"
| "is_expression (KeywordNode w) = True"
| "is_expression (VariableNode x) = True"
| "is_expression (CallNode c as) = (is_expression c \<and> are_expressions as)"
| "is_expression (BinaryNode operator l r) = (is_expression l \<and> is_expression r)"
| "is_expression (VarDecl kind name e) = False"
| "is_expression (ExprStmt e) = False"
| "are_expressions [] = True"
| "are_expressions (n # ns) = (is_expression n \<and> are_expressions ns)"

fun is_statement :: "node \<Rightarrow> bool" where
  "is_statement (VarDecl kind name e) = is_expression e"
| "is_statement (ExprStmt e) = is_expression e"
| "is_statement _ = False"

text \<open>
  A character that occurs in no alternative of the token pattern, and a text without
  quote characters. \<open>shift zs\<close> appends \<open>zs\<close> to the rest that a match leaves.
\<close>

definition unmatched_char :: "char \<Rightarrow> bool" where
  "unmatched_char c =
     (\<not> is_space c \<and> \<not> is_word c \<and> \<not> is_punct c \<and> c \<notin> set ''.!&|''
      \<and> c \<noteq> CHR 0x22 \<and> c \<noteq> CHR 0x27)"

definition quote_free :: "string \<Rightarrow> bool" where
  "quote_free s = (CHR 0x22 \<notin> set s \<and> CHR 0x27 \<notin> set s)"

definition shift :: "string \<Rightarrow> (string \<times> string) option \<Rightarrow> (string \<times> string) option" where
  "shift zs m = map_option (\<lambda>(tok, r). (tok, r @ zs)) m"


section \<open>Evaluation of the built-in helpers on concrete arguments\<close>

lemma upper_ab: "list_all is_ascii ''ab'' \<and> map upper_char ''ab'' = ''AB''"
  by code_simp

lemma exact_sqrt_9: "exact_sqrt 9 = Some 3"
  by code_simp

lemma builtin_env:
  "env (new_interpreter out h) ''len'' = Some (VFun BLen)"
  "env (new_interpreter out h) ''upper'' = Some (VFun BUpper)"
  "env (new_interpreter out h) ''sqrt'' = Some (VFun BSqrt)"
  "env (new_interpreter out h) ''x'' = None"
  by (simp_all add: new_interpreter_def builtInFunctions_def)

section \<open>Two-character operators\<close>

text \<open>
  C2, as the code behaves: the character class \<^verbatim>\<open>[+\-*/=();,{}<>]\<close> stands before the
  alternatives \<^verbatim>\<open>==\<close>, \<^verbatim>\<open><=\<close> and \<^verbatim>\<open>>=\<close>, so the first character of each of these
  spellings is matched alone and the operator is split into two tokens.
\<close>

theorem lexer_splits_double_equals:
  "lexer ''a==b'' = [''a'', ''='', ''='', ''b'']
   \<and> lexer ''a<=b'' = [''a'', ''<'', ''='', ''b'']
   \<and> lexer ''a>=b'' = [''a'', ''>'', ''='', ''b'']"
  by code_simp

lemma lexer_keeps_other_pairs:
  "lexer ''a!=b'' = [''a'', ''!='', ''b'']
   \<and> lexer ''a&&b'' = [''a'', ''&&'', ''b'']
   \<and> lexer ''a||b'' = [''a'', ''||'', ''b'']"
  by code_simp

section \<open>Flat precedence\<close>

lemma lexer_1_plus_2_times_3:
  "lexer ''1+2*3;'' = [''1'', ''+'', ''2'', ''*'', ''3'', '';'']"
  by code_simp

lemma parser_1_plus_2_times_3:
  "parser rnd [''1'', ''+'', ''2'', ''*'', ''3'', '';''] =
     Some (Inr ([ExprStmt (BinaryNode ''*''
                   (BinaryNode ''+'' (NumberNode (Fin 1)) (NumberNode (Fin 2)))
                   (NumberNode (Fin 3)))], 6))"
  by code_simp

text \<open>
  C3: the source \<^verbatim>\<open>1+2*3;\<close> is tokenized to \<^verbatim>\<open>1 + 2 * 3 ;\<close>, parsed to one expression
  statement that multiplies the sum of 1 and 2 by 3, and that statement evaluates to 9
  in every state, which it leaves unchanged.
\<close>

theorem flat_left_to_right_precedence:
  "lexer ''1+2*3;'' = [''1'', ''+'', ''2'', ''*'', ''3'', '';'']
   \<and> parser (rt_round rt) (lexer ''1+2*3;'') =
       Some (Inr ([ExprStmt (BinaryNode ''*''
                     (BinaryNode ''+'' (NumberNode (Fin 1)) (NumberNode (Fin 2)))
                     (NumberNode (Fin 3)))], 6))
   \<and> eval rt (ExprStmt (BinaryNode ''*''
                 (BinaryNode ''+'' (NumberNode (Fin 1)) (NumberNode (Fin 2)))
                 (NumberNode (Fin 3)))) st = (Inr (VNum (Fin 9)), st)"
  unfolding lexer_1_plus_2_times_3 parser_1_plus_2_times_3
  by (simp add: apply_operator_def plus_op_def times_op_def to_double_def safe_int_def)

section \<open>Built-in calls\<close>

lemma lexer_builtin_calls:
  \<open>lexer ''len("abc");'' = [''len'', ''('', ''"abc"'', '')'', '';'']\<close>
  \<open>lexer ''upper("ab");'' = [''upper'', ''('', ''"ab"'', '')'', '';'']\<close>
  \<open>lexer ''sqrt(9);'' = [''sqrt'', ''('', ''9'', '')'', '';'']\<close>
  by code_simp+

lemma parser_builtin_calls:
  \<open>parser rnd [''len'', ''('', ''"abc"'', '')'', '';''] =
     Some (Inr ([ExprStmt (CallNode (VariableNode ''len'') [StringNode ''abc''])], 5))\<close>
  \<open>parser rnd [''upper'', ''('', ''"ab"'', '')'', '';''] =
     Some (Inr ([ExprStmt (CallNode (VariableNode ''upper'') [StringNode ''ab''])], 5))\<close>
  \<open>parser rnd [''sqrt'', ''('', ''9'', '')'', '';''] =
     Some (Inr ([ExprStmt (CallNode (VariableNode ''sqrt'') [NumberNode (Fin 9)])], 5))\<close>
  by code_simp+

text \<open>
  C8: in the initial interpreter the statements parsed from \<^verbatim>\<open>len("abc");\<close>,
  \<^verbatim>\<open>upper("ab");\<close> and \<^verbatim>\<open>sqrt(9);\<close> evaluate to the number 3, the string \<^verbatim>\<open>AB\<close> and the
  number 3.
\<close>

theorem builtin_calls_values:
  \<open>parser (rt_round rt) (lexer ''len("abc");'') =
      Some (Inr ([ExprStmt (CallNode (VariableNode ''len'') [StringNode ''abc''])], 5))
   \<and> eval rt (ExprStmt (CallNode (VariableNode ''len'') [StringNode ''abc'']))
        (new_interpreter out h) = (Inr (VNum (Fin 3)), new_interpreter out h)
   \<and> parser (rt_round rt) (lexer ''upper("ab");'') =
      Some (Inr ([ExprStmt (CallNode (VariableNode ''upper'') [StringNode ''ab''])], 5))
   \<and> eval rt (ExprStmt (CallNode (VariableNode ''upper'') [StringNode ''ab'']))
        (new_interpreter out h) = (Inr (VStr ''AB''), new_interpreter out h)
   \<and> parser (rt_round rt) (lexer ''sqrt(9);'') =
      Some (Inr ([ExprStmt (CallNode (VariableNode ''sqrt'') [NumberNode (Fin 9)])], 5))
   \<and> eval rt (ExprStmt (CallNode (VariableNode ''sqrt'') [NumberNode (Fin 9)]))
        (new_interpreter out h) = (Inr (VNum (Fin 3)), new_interpreter out h)\<close>
  unfolding lexer_builtin_calls parser_builtin_calls
  using upper_ab by (simp add: builtin_env call_builtin_def exact_sqrt_9)


section \<open>Identifier tokens\<close>






section \<open>The callee is checked before the arguments\<close>

text \<open>
  C10: when the callee of a call evaluates to a value that is not a function, the call
  fails with \<^verbatim>\<open>Call of non-function\<close> in the state the evaluation of the callee left:
  whatever the argument expressions are, none of them is evaluated, so neither the
  environment nor the console nor the host changes on their account.
\<close>

theorem non_function_fails_before_arguments:
  assumes "eval rt callee st = (Inr c, st1)" and "\<not> callable c"
  shows "eval rt (CallNode callee arguments) st = (Inl (Error ''Call of non-function''), st1)"
  using assms by (cases c) simp_all

theorem non_function_fails_before_arguments_witness:
  "eval plain_runtime
     (CallNode (NumberNode (Fin 1)) [CallNode (VariableNode ''print'') [StringNode ''a'']]) fresh
     = (Inl (Error ''Call of non-function''), fresh)"
proof -
  have e: "eval plain_runtime (NumberNode (Fin 1)) fresh = (Inr (VNum (Fin 1)), fresh)"
    by simp
  have c: "\<not> callable (VNum (Fin 1))"
    by simp
  show ?thesis
    using non_function_fails_before_arguments [OF e c] .
qed

section \<open>Keyword nodes\<close>

lemma keyword_table_tokens:
  "list_all (\<lambda>w. w \<noteq> [] \<and> isNaN_string w \<and> hd w \<noteq> CHR 0x22 \<and> hd w \<noteq> CHR 0x27) keyword_table"
  by code_simp

lemma parsePrimary_keyword:
  assumes "peek tokens pos = Some w" and "isKeyword w"
    and "w \<noteq> ''true''" and "w \<noteq> ''false''" and "w \<noteq> ''null''"
  shows "parsePrimary rnd tokens pos = Inr (KeywordNode w, pos + 1)"
proof -
  from assms(2) keyword_table_tokens
  have "w \<noteq> [] \<and> isNaN_string w \<and> hd w \<noteq> CHR 0x22 \<and> hd w \<noteq> CHR 0x27"
    unfolding isKeyword_def list_all_iff by blast
  with assms show ?thesis
    by (simp add: parsePrimary_def)
qed

lemma eval_contains_keyword:
  "contains_keyword n \<Longrightarrow> \<exists>e st'. eval rt n st = (Inl e, st')"
  "contains_keyword_list ns \<Longrightarrow> \<exists>e st'. eval_arguments rt ns st = (Inl e, st')"
proof (induction rt n st and rt ns st rule: eval_eval_arguments.induct)
  case (5 rt callee arguments st)
  show ?case
  proof (cases "eval rt callee st")
    case (Pair res st1)
    show ?thesis
    proof (cases res)
      case (Inl e)
      with Pair show ?thesis by simp
    next
      case (Inr c)
      show ?thesis
      proof (cases "callable c")
        case False
        with Pair Inr show ?thesis by (cases c) simp_all
      next
        case True
        then obtain f where c: "c = VFun f" by (cases c) simp_all
        from "5.prems" "5.IH"(1) Pair Inr have "contains_keyword_list arguments"
          by auto
        with "5.IH"(2) [OF Pair [symmetric] Inr c] obtain e st'
          where "eval_arguments rt arguments st1 = (Inl e, st')"
          by blast
        with Pair Inr c show ?thesis by simp
      qed
    qed
  qed
next
  case (6 rt operator l r st)
  show ?case
  proof (cases "eval rt l st")
    case (Pair res st1)
    show ?thesis
    proof (cases res)
      case (Inl e)
      with Pair show ?thesis by simp
    next
      case (Inr left)
      from "6.prems" "6.IH"(1) Pair Inr have "contains_keyword r"
        by auto
      with "6.IH"(2) [OF Pair [symmetric] Inr] obtain e st'
        where "eval rt r st1 = (Inl e, st')"
        by blast
      with Pair Inr show ?thesis by simp
    qed
  qed
next
  case (7 rt kind name expr st)
  then show ?case by auto
next
  case (11 rt arg rest st)
  show ?case
  proof (cases "eval rt arg st")
    case (Pair res st1)
    show ?thesis
    proof (cases res)
      case (Inl e)
      with Pair show ?thesis by simp
    next
      case (Inr v)
      from "11.prems" "11.IH"(1) Pair Inr have "contains_keyword_list rest"
        by auto
      with "11.IH"(2) [OF Pair [symmetric] Inr] obtain e st'
        where "eval_arguments rt rest st1 = (Inl e, st')"
        by blast
      with Pair Inr show ?thesis by simp
    qed
  qed
qed simp_all

text \<open>
  C9: a \<^verbatim>\<open>keyword\<close> node evaluates to the error \<^verbatim>\<open>Unknown node type keyword\<close>, and the
  evaluation of any tree that contains a \<^verbatim>\<open>keyword\<close> node ends with an error, never
  with a value.
\<close>

theorem keyword_node_is_an_error:
  "eval rt (KeywordNode w) st = (Inl (Error ''Unknown node type keyword''), st)
   \<and> (contains_keyword n \<longrightarrow> (\<exists>e st'. eval rt n st = (Inl e, st')))"
  using eval_contains_keyword(1) [of n rt st] by simp

theorem keyword_node_is_an_error_witness:
  "contains_keyword (BinaryNode ''+'' (NumberNode (Fin 1)) (KeywordNode ''if''))
   \<and> (\<exists>e st'. eval plain_runtime (BinaryNode ''+'' (NumberNode (Fin 1)) (KeywordNode ''if'')) fresh
          = (Inl e, st'))"
  using keyword_node_is_an_error
    [of plain_runtime "''if''" fresh "BinaryNode ''+'' (NumberNode (Fin 1)) (KeywordNode ''if'')"]
  by simp

text \<open>
  A declaration may use a keyword as its name, but the same word in an expression is a
  \<^verbatim>\<open>keyword\<close> node, not a reference: the declaration succeeds and the statement after
  it fails.
\<close>

lemma lexer_let_if: "lexer ''let if = 1; if;'' = [''let'', ''if'', ''='', ''1'', '';'', ''if'', '';'']"
  by code_simp

lemma parser_let_if:
  "parser rnd [''let'', ''if'', ''='', ''1'', '';'', ''if'', '';''] =
     Some (Inr ([VarDecl ''let'' ''if'' (NumberNode (Fin 1)), ExprStmt (KeywordNode ''if'')], 7))"
  by code_simp

lemma keyword_name_is_not_a_reference:
  "executeFlux rt ''let if = 1; if;'' out h =
     Some (Some (Error ''Unknown node type keyword''),
           Some ((new_interpreter out h)
                   \<lparr>env := (env (new_interpreter out h))(''if'' \<mapsto> VNum (Fin 1))\<rparr>))"
  unfolding executeFlux_def lexer_let_if parser_let_if by simp

section \<open>Invalid declaration names\<close>

text \<open>
  C7: at a declaration keyword followed by a token that does not match
  \<^verbatim>\<open>[A-Za-z_]\w*\<close>, \<^verbatim>\<open>parseStatement\<close> fails with \<^verbatim>\<open>Invalid variable name\<close> at the position
  just after the name, for every depth bound and whatever tokens follow: the
  initializer is not looked at. So does the parser on a program that starts this way.
\<close>

theorem invalid_variable_name_before_initializer:
  assumes "kind = ''let'' \<or> kind = ''const'' \<or> kind = ''var''"
    and "\<not> name_pattern name"
  shows "(peek tokens pos = Some kind \<and> peek tokens (pos + 1) = Some name \<longrightarrow>
            parseStatement n rnd tokens pos = Some (Inl (Error ''Invalid variable name'', pos + 2)))
     \<and> parser rnd (kind # name # rest) = Some (Inl (Error ''Invalid variable name'', 2))"
proof -
  have stmt: "parseStatement n rnd tokens pos = Some (Inl (Error ''Invalid variable name'', pos + 2))"
    if "peek tokens pos = Some kind" and "peek tokens (pos + 1) = Some name"
    for n tokens pos
    using that assms by (auto simp: parseStatement_def bindP_def consume_def)
  have p0: "peek (kind # name # rest) 0 = Some kind"
    and p1: "peek (kind # name # rest) (0 + 1) = Some name"
    by (simp_all add: peek_def)
  have fuel: "3 * length (kind # name # rest) + 6 = Suc (3 * length (kind # name # rest) + 5)"
    by simp
  have "parser rnd (kind # name # rest) = Some (Inl (Error ''Invalid variable name'', 2))"
    unfolding parser_def fuel statements_loop.simps
    using stmt [OF p0 p1] by (simp add: bindP_def)
  with stmt show ?thesis by blast
qed

theorem invalid_variable_name_before_initializer_witness:
  "parseStatement 0 (rt_round plain_runtime) [''let'', ''1'', ''='', ''2'', '';''] 0
      = Some (Inl (Error ''Invalid variable name'', 2))
   \<and> parser (rt_round plain_runtime) [''let'', ''1'', ''='', ''2'', '';'']
      = Some (Inl (Error ''Invalid variable name'', 2))"
proof -
  have k: "''let'' = ''let'' \<or> ''let'' = ''const'' \<or> ''let'' = ''var''"
    by simp
  have np: "\<not> name_pattern ''1''"
    by (simp add: name_pattern_def is_word_start_def)
  have pk: "peek [''let'', ''1'', ''='', ''2'', '';''] 0 = Some ''let''
      \<and> peek [''let'', ''1'', ''='', ''2'', '';''] (0 + 1) = Some ''1''"
    by (simp add: peek_def)
  show ?thesis
    using invalid_variable_name_before_initializer
      [OF k np, of "[''let'', ''1'', ''='', ''2'', '';'']" 0 0 "rt_round plain_runtime" "[''='', ''2'', '';'']"] pk
    by simp
qed


section \<open>Expressions leave the environment alone\<close>

lemma native_env: "env (snd (native rt f args st)) = env st"
  by (simp add: native_def split: prod.split)

lemma call_builtin_env': "env (snd (call_builtin rt f args st)) = env st"
  unfolding call_builtin_def
  by (simp add: native_env split: builtin.split list.split val.split num.split option.split)

lemma call_builtin_env: "call_builtin rt f args st = (res, st') \<Longrightarrow> env st' = env st"
  using call_builtin_env' [of rt f args st] by simp


lemma expression_env:
  "is_expression n \<Longrightarrow> env (snd (eval rt n st)) = env st"
  "are_expressions ns \<Longrightarrow> env (snd (eval_arguments rt ns st)) = env st"
proof (induction rt n st and rt ns st rule: eval_eval_arguments.induct)
  case (4 rt name st)
  show ?case by (simp split: option.split)
next
  case (5 rt callee arguments st)
  obtain res st1 where c: "eval rt callee st = (res, st1)"
    by (cases "eval rt callee st")
  with 5 have e1: "env st1 = env st"
    by simp
  show ?case
  proof (cases res)
    case (Inl e)
    with c e1 show ?thesis by simp
  next
    case (Inr v)
    show ?thesis
    proof (cases v)
      case (VFun f)
      obtain ress st2 where a: "eval_arguments rt arguments st1 = (ress, st2)"
        by (cases "eval_arguments rt arguments st1")
      from "5.IH"(2) [OF c [symmetric] Inr VFun] "5.prems" a have e2: "env st2 = env st1"
        by simp
      show ?thesis
        using c Inr VFun a e1 e2 call_builtin_env' [of rt f _ st2]
        by (cases ress) simp_all
    qed (use c Inr e1 in simp_all)
  qed
next
  case (6 rt operator l r st)
  obtain res st1 where c: "eval rt l st = (res, st1)"
    by (cases "eval rt l st")
  with 6 have e1: "env st1 = env st"
    by simp
  show ?case
  proof (cases res)
    case (Inl e)
    with c e1 show ?thesis by simp
  next
    case (Inr v)
    obtain res2 st2 where a: "eval rt r st1 = (res2, st2)"
      by (cases "eval rt r st1")
    from "6.IH"(2) [OF c [symmetric] Inr] "6.prems" a have e2: "env st2 = env st1"
      by simp
    show ?thesis
      using c Inr a e1 e2 by (cases res2) simp_all
  qed
next
  case (11 rt arg rest st)
  obtain res st1 where c: "eval rt arg st = (res, st1)"
    by (cases "eval rt arg st")
  with 11 have e1: "env st1 = env st"
    by simp
  show ?case
  proof (cases res)
    case (Inl e)
    with c e1 show ?thesis by simp
  next
    case (Inr v)
    obtain res2 st2 where a: "eval_arguments rt rest st1 = (res2, st2)"
      by (cases "eval_arguments rt rest st1")
    from "11.IH"(2) [OF c [symmetric] Inr] "11.prems" a have e2: "env st2 = env st1"
      by simp
    show ?thesis
      using c Inr a e1 e2 by (cases res2) simp_all
  qed
qed simp_all

lemma failing_statement_env:
  assumes "is_statement s" and "eval rt s st = (Inl e, st')"
  shows "env st' = env st"
proof (cases s)
  case (VarDecl kind name expr)
  obtain res st1 where c: "eval rt expr st = (res, st1)"
    by (cases "eval rt expr st")
  with assms VarDecl expression_env(1) [of expr rt st] show ?thesis
    by (cases res) auto
next
  case (ExprStmt expr)
  with assms expression_env(1) [of expr rt st] show ?thesis
    by auto
qed (use assms in simp_all)

section \<open>What the parser returns\<close>

text \<open>
  Every statement the parser returns has the shape \<open>is_statement\<close>; every successful
  call of a parsing function moves the position forward and not past the end of the
  tokens; and the depth bound that \<open>parser\<close> starts with is never exceeded, so
  \<open>parser\<close> and \<open>executeFlux\<close> return for every input.
\<close>

lemma bindP_Inr:
  assumes "bindP m f = Some (Inr (y, q))"
  obtains x p where "m = Some (Inr (x, p))" and "f x p = Some (Inr (y, q))"
  using assms by (auto simp: bindP_def split: option.splits sum.splits)

lemma are_expressions_snoc:
  "are_expressions (args @ [arg]) = (are_expressions args \<and> is_expression arg)"
  by (induction args) auto

lemma parsePrimary_expression:
  "parsePrimary rnd tokens pos = Inr (e, p) \<Longrightarrow> is_expression e"
  by (auto simp: parsePrimary_def split: option.splits if_splits)

lemma parse_expression_shapes:
  "parseCall n rnd tokens pos = Some (Inr (e, p)) \<Longrightarrow> is_expression e"
  "call_loop n rnd tokens expr pos = Some (Inr (e, p)) \<Longrightarrow> is_expression expr \<Longrightarrow> is_expression e"
  "args_loop n rnd tokens args pos = Some (Inr (es, p)) \<Longrightarrow> are_expressions args \<Longrightarrow> are_expressions es"
  "parseExpression n rnd tokens pos = Some (Inr (e, p)) \<Longrightarrow> is_expression e"
  "expression_loop n rnd tokens left pos = Some (Inr (e, p)) \<Longrightarrow> is_expression left \<Longrightarrow> is_expression e"
proof (induction n rnd tokens pos and n rnd tokens expr pos and n rnd tokens args pos
    and n rnd tokens pos and n rnd tokens left pos
    arbitrary: e p and e p and es p and e p and e p
    rule: parseCall_call_loop_args_loop_parseExpression_expression_loop.induct)
  case (2 n rnd tokens pos)
  from "2.prems" show ?case
    by (auto elim!: bindP_Inr dest: parsePrimary_expression "2.IH")
next
  case (4 n rnd tokens expr pos)
  show ?case
  proof (cases "peek tokens pos = Some ''(''")
    case False
    with "4.prems" show ?thesis by simp
  next
    case True
    with "4.prems"(1) obtain t p1 args p2 t' p3
      where "consume (Some ''('') tokens pos = Inr (t, p1)"
        and a: "(if peek tokens p1 \<noteq> Some '')'' then args_loop n rnd tokens [] p1
                else Some (Inr ([], p1))) = Some (Inr (args, p2))"
        and "consume (Some '')'') tokens p2 = Inr (t', p3)"
        and l: "call_loop n rnd tokens (CallNode expr args) p3 = Some (Inr (e, p))"
      by (auto elim!: bindP_Inr)
    from a "4.IH"(1) [OF True] have "are_expressions args"
      by (auto split: if_splits)
    with "4.prems"(2) "4.IH"(2) [OF True l] show ?thesis
      by simp
  qed
next
  case (6 n rnd tokens args pos)
  from "6.prems"(1) obtain arg p1
    where a: "parseExpression n rnd tokens pos = Some (Inr (arg, p1))"
      and r: "(if peek tokens p1 = Some '',''
               then bindP (Some (consume (Some '','') tokens p1)) (\<lambda>_ p2.
                    args_loop n rnd tokens (args @ [arg]) p2)
               else Some (Inr (args @ [arg], p1))) = Some (Inr (es, p))"
    by (auto elim!: bindP_Inr)
  from a "6.IH"(1) have arg: "is_expression arg"
    by blast
  show ?case
  proof (cases "peek tokens p1 = Some '',''")
    case False
    with r arg "6.prems"(2) show ?thesis
      by (auto simp: are_expressions_snoc)
  next
    case True
    with r obtain t p2 where "args_loop n rnd tokens (args @ [arg]) p2 = Some (Inr (es, p))"
      by (auto elim!: bindP_Inr)
    with "6.IH"(2) [OF True] arg "6.prems"(2) show ?thesis
      by (simp add: are_expressions_snoc)
  qed
next
  case (8 n rnd tokens pos)
  from "8.prems" show ?case
    by (auto elim!: bindP_Inr dest: "8.IH")
next
  case (10 n rnd tokens left pos)
  show ?case
  proof (cases "peek tokens pos")
    case None
    with "10.prems" show ?thesis by simp
  next
    case (Some operator)
    show ?thesis
    proof (cases "operator \<in> set binary_operators")
      case False
      with Some "10.prems" show ?thesis by simp
    next
      case True
      with Some "10.prems"(1) obtain t p1 right p2
        where "parseCall n rnd tokens p1 = Some (Inr (right, p2))"
          and l: "expression_loop n rnd tokens (BinaryNode operator left right) p2 = Some (Inr (e, p))"
        by (auto elim!: bindP_Inr)
      with "10.IH"(1) [OF Some True] "10.IH"(2) [OF Some True l] "10.prems"(2) show ?thesis
        by simp
    qed
  qed
qed simp_all

lemma parseStatement_shape:
  assumes "parseStatement n rnd tokens pos = Some (Inr (s, p))"
  shows "is_statement s"
proof (cases "peek tokens pos = Some ''let'' \<or> peek tokens pos = Some ''const''
    \<or> peek tokens pos = Some ''var''")
  case True
  with assms obtain kind name expr p3 p4
    where "parseExpression n rnd tokens p3 = Some (Inr (expr, p4))"
      and "s = VarDecl (token_text kind) name expr"
    unfolding parseStatement_def
    by (auto elim!: bindP_Inr split: if_splits option.splits)
  then show ?thesis
    using parse_expression_shapes(4) by simp
next
  case False
  with assms obtain expr p1
    where "parseExpression n rnd tokens pos = Some (Inr (expr, p1))"
      and "s = ExprStmt expr"
    unfolding parseStatement_def
    by (auto elim!: bindP_Inr)
  then show ?thesis
    using parse_expression_shapes(4) by simp
qed

lemma statements_loop_shape:
  "statements_loop n rnd tokens stmts pos = Some (Inr (ss, p)) \<Longrightarrow> list_all is_statement stmts
     \<Longrightarrow> list_all is_statement ss"
proof (induction n rnd tokens stmts pos rule: statements_loop.induct)
  case (2 n rnd tokens statements pos)
  show ?case
  proof (cases "pos \<ge> length tokens")
    case True
    with "2.prems" show ?thesis by simp
  next
    case False
    with "2.prems"(1) obtain stmt p1
      where s: "parseStatement n rnd tokens pos = Some (Inr (stmt, p1))"
        and l: "statements_loop n rnd tokens (statements @ [stmt]) p1 = Some (Inr (ss, p))"
      by (auto elim!: bindP_Inr)
    from s have "is_statement stmt"
      by (rule parseStatement_shape)
    with "2.IH" [OF False l] "2.prems"(2) show ?thesis
      by simp
  qed
qed simp

lemma parser_builds_statements:
  "parser rnd tokens = Some (Inr (ss, p)) \<Longrightarrow> list_all is_statement ss"
  unfolding parser_def by (erule statements_loop_shape) simp

lemma bindP_None:
  assumes "bindP m f = None"
  obtains "m = None" | x p where "m = Some (Inr (x, p))" and "f x p = None"
  using assms by (auto simp: bindP_def split: option.splits sum.splits)

lemma parsePrimary_progress:
  "parsePrimary rnd tokens pos = Inr (e, p) \<Longrightarrow> p = pos + 1 \<and> pos < length tokens"
  by (auto simp: parsePrimary_def peek_def split: option.splits if_splits)

lemma consume_progress:
  "consume (Some t) tokens pos = Inr (x, p) \<Longrightarrow> t \<noteq> [] \<Longrightarrow> p = pos + 1 \<and> pos < length tokens"
  by (auto simp: consume_def peek_def Let_def split: if_splits)

lemma peek_Some_less: "peek tokens pos = Some t \<Longrightarrow> pos < length tokens"
  by (auto simp: peek_def split: if_splits)

lemma consume_None: "consume None tokens pos = Inr (peek tokens pos, pos + 1)"
  by (simp add: consume_def)

lemma parse_progress:
  "parseCall n rnd tokens pos = Some (Inr (e, p)) \<Longrightarrow> pos < p \<and> p \<le> length tokens"
  "call_loop n rnd tokens expr pos = Some (Inr (e, p)) \<Longrightarrow> pos \<le> length tokens
     \<Longrightarrow> pos \<le> p \<and> p \<le> length tokens"
  "args_loop n rnd tokens args pos = Some (Inr (es, p)) \<Longrightarrow> pos < p \<and> p \<le> length tokens"
  "parseExpression n rnd tokens pos = Some (Inr (e, p)) \<Longrightarrow> pos < p \<and> p \<le> length tokens"
  "expression_loop n rnd tokens left pos = Some (Inr (e, p)) \<Longrightarrow> pos \<le> length tokens
     \<Longrightarrow> pos \<le> p \<and> p \<le> length tokens"
proof (induction n rnd tokens pos and n rnd tokens expr pos and n rnd tokens args pos
    and n rnd tokens pos and n rnd tokens left pos
    arbitrary: e p and e p and es p and e p and e p
    rule: parseCall_call_loop_args_loop_parseExpression_expression_loop.induct)
  case (2 n rnd tokens pos)
  from "2.prems" obtain x p1 where a: "parsePrimary rnd tokens pos = Inr (x, p1)"
    and l: "call_loop n rnd tokens x p1 = Some (Inr (e, p))"
    by (auto elim!: bindP_Inr)
  from a have "p1 = pos + 1 \<and> pos < length tokens"
    by (rule parsePrimary_progress)
  with "2.IH" [OF l] show ?case
    by simp
next
  case (4 n rnd tokens expr pos)
  show ?case
  proof (cases "peek tokens pos = Some ''(''")
    case False
    with "4.prems" show ?thesis by simp
  next
    case True
    with "4.prems"(1) obtain t p1 args p2 t' p3
      where c1: "consume (Some ''('') tokens pos = Inr (t, p1)"
        and a: "(if peek tokens p1 \<noteq> Some '')'' then args_loop n rnd tokens [] p1
                else Some (Inr ([], p1))) = Some (Inr (args, p2))"
        and c2: "consume (Some '')'') tokens p2 = Inr (t', p3)"
        and l: "call_loop n rnd tokens (CallNode expr args) p3 = Some (Inr (e, p))"
      by (auto elim!: bindP_Inr)
    from c1 have p1: "p1 = pos + 1 \<and> pos < length tokens"
      by (rule consume_progress) simp
    from a "4.IH"(1) [OF True] have p2: "p1 \<le> p2"
      by (auto split: if_splits dest: less_imp_le)
    from c2 have p3: "p3 = p2 + 1 \<and> p2 < length tokens"
      by (rule consume_progress) simp
    from "4.IH"(2) [OF True l] p1 p2 p3 show ?thesis
      by simp
  qed
next
  case (6 n rnd tokens args pos)
  from "6.prems"(1) obtain arg p1
    where a: "parseExpression n rnd tokens pos = Some (Inr (arg, p1))"
      and r: "(if peek tokens p1 = Some '',''
               then bindP (Some (consume (Some '','') tokens p1)) (\<lambda>_ p2.
                    args_loop n rnd tokens (args @ [arg]) p2)
               else Some (Inr (args @ [arg], p1))) = Some (Inr (es, p))"
    by (auto elim!: bindP_Inr)
  from a "6.IH"(1) have p1: "pos < p1 \<and> p1 \<le> length tokens"
    by blast
  show ?case
  proof (cases "peek tokens p1 = Some '',''")
    case False
    with r p1 show ?thesis by auto
  next
    case True
    with r obtain t p2 where c: "consume (Some '','') tokens p1 = Inr (t, p2)"
      and l: "args_loop n rnd tokens (args @ [arg]) p2 = Some (Inr (es, p))"
      by (auto elim!: bindP_Inr)
    from c have "p2 = p1 + 1 \<and> p1 < length tokens"
      by (rule consume_progress) simp
    with "6.IH"(2) [OF True l] p1 show ?thesis
      by simp
  qed
next
  case (8 n rnd tokens pos)
  from "8.prems" obtain x p1 where a: "parseCall n rnd tokens pos = Some (Inr (x, p1))"
    and l: "expression_loop n rnd tokens x p1 = Some (Inr (e, p))"
    by (auto elim!: bindP_Inr)
  from a "8.IH"(1) have "pos < p1 \<and> p1 \<le> length tokens"
    by blast
  with "8.IH"(2) [OF l] show ?case
    by simp
next
  case (10 n rnd tokens left pos)
  show ?case
  proof (cases "peek tokens pos")
    case None
    with "10.prems" show ?thesis by simp
  next
    case (Some operator)
    show ?thesis
    proof (cases "operator \<in> set binary_operators")
      case False
      with Some "10.prems" show ?thesis by simp
    next
      case True
      with Some "10.prems"(1) obtain right p2
        where a: "parseCall n rnd tokens (pos + 1) = Some (Inr (right, p2))"
          and l: "expression_loop n rnd tokens (BinaryNode operator left right) p2 = Some (Inr (e, p))"
        by (auto elim!: bindP_Inr simp: consume_None)
      from "10.IH"(1) [OF Some True a] have "pos + 1 < p2 \<and> p2 \<le> length tokens" .
      with "10.IH"(2) [OF Some True l] show ?thesis
        by simp
    qed
  qed
qed simp_all

lemma parse_fuel:
  "2 * (length tokens - pos) + 1 \<le> n \<Longrightarrow> parseCall n rnd tokens pos \<noteq> None"
  "2 * (length tokens - pos) + 2 \<le> n \<Longrightarrow> call_loop n rnd tokens expr pos \<noteq> None"
  "2 * (length tokens - pos) + 3 \<le> n \<Longrightarrow> args_loop n rnd tokens args pos \<noteq> None"
  "2 * (length tokens - pos) + 2 \<le> n \<Longrightarrow> parseExpression n rnd tokens pos \<noteq> None"
  "2 * (length tokens - pos) + 1 \<le> n \<Longrightarrow> expression_loop n rnd tokens left pos \<noteq> None"
proof (induction n rnd tokens pos and n rnd tokens expr pos and n rnd tokens args pos
    and n rnd tokens pos and n rnd tokens left pos
    rule: parseCall_call_loop_args_loop_parseExpression_expression_loop.induct)
  case (2 n rnd tokens pos)
  show ?case
  proof
    assume "parseCall (Suc n) rnd tokens pos = None"
    then obtain x p1 where a: "parsePrimary rnd tokens pos = Inr (x, p1)"
      and l: "call_loop n rnd tokens x p1 = None"
      by (auto elim!: bindP_None)
    from a have "p1 = pos + 1 \<and> pos < length tokens"
      by (rule parsePrimary_progress)
    with "2.prems" have "2 * (length tokens - p1) + 2 \<le> n"
      by auto
    with "2.IH" l show False
      by blast
  qed
next
  case (4 n rnd tokens expr pos)
  show ?case
  proof
    assume none: "call_loop (Suc n) rnd tokens expr pos = None"
    then have True: "peek tokens pos = Some ''(''"
      by (auto split: if_splits)
    then have less: "pos < length tokens"
      by (rule peek_Some_less)
    have c1: "consume (Some ''('') tokens pos = Inr (Some ''('', Suc pos)"
      using True by (simp add: consume_def)
    let ?args = "if peek tokens (Suc pos) \<noteq> Some '')'' then args_loop n rnd tokens [] (Suc pos)
                 else Some (Inr ([], Suc pos))"
    from less "4.prems" have "2 * (length tokens - Suc pos) + 3 \<le> n"
      by auto
    with "4.IH"(1) [OF True] have "?args \<noteq> None"
      by auto
    with none True c1 obtain args p2 t' p3
      where a: "?args = Some (Inr (args, p2))"
        and c2: "consume (Some '')'') tokens p2 = Inr (t', p3)"
        and l: "call_loop n rnd tokens (CallNode expr args) p3 = None"
      by (auto elim!: bindP_None)
    from a parse_progress(3) [of n rnd tokens "[]" "Suc pos" args p2] have p2: "pos + 1 \<le> p2"
      by (auto split: if_splits)
    from c2 have p3: "p3 = p2 + 1 \<and> p2 < length tokens"
      by (rule consume_progress) simp
    with p2 "4.prems" have "2 * (length tokens - p3) + 2 \<le> n"
      by auto
    with "4.IH"(2) [OF True] l show False
      by blast
  qed
next
  case (6 n rnd tokens args pos)
  show ?case
  proof
    assume none: "args_loop (Suc n) rnd tokens args pos = None"
    from "6.prems" have "2 * (length tokens - pos) + 2 \<le> n"
      by simp
    with "6.IH"(1) have "parseExpression n rnd tokens pos \<noteq> None" .
    with none obtain arg p1
      where a: "parseExpression n rnd tokens pos = Some (Inr (arg, p1))"
        and r: "(if peek tokens p1 = Some '',''
                 then bindP (Some (consume (Some '','') tokens p1)) (\<lambda>_ p2.
                      args_loop n rnd tokens (args @ [arg]) p2)
                 else Some (Inr (args @ [arg], p1))) = None"
      by (auto elim!: bindP_None)
    from a have p1: "pos < p1 \<and> p1 \<le> length tokens"
      by (rule parse_progress(4))
    from r have True: "peek tokens p1 = Some '',''"
      by (auto split: if_splits)
    with r obtain t p2 where c: "consume (Some '','') tokens p1 = Inr (t, p2)"
      and l: "args_loop n rnd tokens (args @ [arg]) p2 = None"
      by (auto elim!: bindP_None)
    from c have "p2 = p1 + 1 \<and> p1 < length tokens"
      by (rule consume_progress) simp
    with p1 "6.prems" have "2 * (length tokens - p2) + 3 \<le> n"
      by auto
    with "6.IH"(2) [OF True] l show False
      by blast
  qed
next
  case (8 n rnd tokens pos)
  show ?case
  proof
    assume none: "parseExpression (Suc n) rnd tokens pos = None"
    from "8.prems" have "2 * (length tokens - pos) + 1 \<le> n"
      by simp
    with "8.IH"(1) have "parseCall n rnd tokens pos \<noteq> None" .
    with none obtain x p1 where a: "parseCall n rnd tokens pos = Some (Inr (x, p1))"
      and l: "expression_loop n rnd tokens x p1 = None"
      by (auto elim!: bindP_None)
    from a have "pos < p1 \<and> p1 \<le> length tokens"
      by (rule parse_progress(1))
    with "8.prems" have "2 * (length tokens - p1) + 1 \<le> n"
      by auto
    with "8.IH"(2) l show False
      by blast
  qed
next
  case (10 n rnd tokens left pos)
  show ?case
  proof
    assume none: "expression_loop (Suc n) rnd tokens left pos = None"
    then obtain operator where Some: "peek tokens pos = Some operator"
      and True: "operator \<in> set binary_operators"
      by (auto split: option.splits if_splits)
    from Some have less: "pos < length tokens"
      by (rule peek_Some_less)
    with "10.prems" have "2 * (length tokens - (pos + 1)) + 1 \<le> n"
      by auto
    with "10.IH"(1) [OF Some True] have "parseCall n rnd tokens (pos + 1) \<noteq> None"
      by blast
    with none Some True obtain right p2
      where a: "parseCall n rnd tokens (pos + 1) = Some (Inr (right, p2))"
        and l: "expression_loop n rnd tokens (BinaryNode operator left right) p2 = None"
      by (auto elim!: bindP_None simp: consume_None)
    from a have "pos + 1 < p2 \<and> p2 \<le> length tokens"
      by (rule parse_progress(1))
    with "10.prems" have "2 * (length tokens - p2) + 1 \<le> n"
      by auto
    with "10.IH"(2) [OF Some True] l show False
      by blast
  qed
qed simp_all

lemma consume_pos: "consume t tokens pos = Inr (x, p) \<Longrightarrow> p = pos + 1"
  by (auto simp: consume_def Let_def split: option.splits if_splits)

lemma parseStatement_progress:
  assumes "parseStatement n rnd tokens pos = Some (Inr (s, p))"
  shows "pos + 2 \<le> p \<and> p \<le> length tokens"
proof -
  have "\<exists>p3 expr p4 t. pos \<le> p3 \<and> parseExpression n rnd tokens p3 = Some (Inr (expr, p4))
      \<and> consume (Some '';'') tokens p4 = Inr (t, p)"
  proof (cases "peek tokens pos = Some ''let'' \<or> peek tokens pos = Some ''const''
      \<or> peek tokens pos = Some ''var''")
    case True
    with assms obtain x p3 expr p4 t
      where c: "consume (Some ''='') tokens (Suc (Suc pos)) = Inr (x, p3)"
        and e: "parseExpression n rnd tokens p3 = Some (Inr (expr, p4))"
        and t: "consume (Some '';'') tokens p4 = Inr (t, p)"
      unfolding parseStatement_def
      by (auto elim!: bindP_Inr simp: consume_None split: if_splits option.splits)
    from c have "pos \<le> p3"
      by (auto dest: consume_pos)
    with e t show ?thesis by blast
  next
    case False
    with assms show ?thesis
      unfolding parseStatement_def by (auto elim!: bindP_Inr)
  qed
  then obtain p3 expr p4 t
    where e: "parseExpression n rnd tokens p3 = Some (Inr (expr, p4))"
      and c: "consume (Some '';'') tokens p4 = Inr (t, p)"
      and p3: "pos \<le> p3"
    by blast
  from e have "p3 < p4 \<and> p4 \<le> length tokens"
    by (rule parse_progress(4))
  moreover from c have "p = p4 + 1 \<and> p4 < length tokens"
    by (rule consume_progress) simp
  ultimately show ?thesis
    using p3 by simp
qed

lemma parseStatement_fuel:
  assumes "2 * (length tokens - pos) + 2 \<le> n"
  shows "parseStatement n rnd tokens pos \<noteq> None"
proof
  assume none: "parseStatement n rnd tokens pos = None"
  have "\<exists>p3. pos \<le> p3 \<and> parseExpression n rnd tokens p3 = None"
  proof (cases "peek tokens pos = Some ''let'' \<or> peek tokens pos = Some ''const''
      \<or> peek tokens pos = Some ''var''")
    case True
    with none obtain x p3
      where c: "consume (Some ''='') tokens (Suc (Suc pos)) = Inr (x, p3)"
        and e: "parseExpression n rnd tokens p3 = None"
      unfolding parseStatement_def
      by (auto elim!: bindP_None simp: consume_None split: if_splits option.splits)
    from c have "pos \<le> p3"
      by (auto dest: consume_pos)
    with e show ?thesis by blast
  next
    case False
    with none show ?thesis
      unfolding parseStatement_def by (auto elim!: bindP_None)
  qed
  then obtain p3 where l: "parseExpression n rnd tokens p3 = None" and p3: "pos \<le> p3"
    by blast
  from p3 assms have "2 * (length tokens - p3) + 2 \<le> n"
    by auto
  with parse_fuel(4) l show False
    by blast
qed

lemma statements_loop_fuel:
  "2 * (length tokens - pos) + 3 \<le> n \<Longrightarrow> statements_loop n rnd tokens stmts pos \<noteq> None"
proof (induction n rnd tokens stmts pos rule: statements_loop.induct)
  case (2 n rnd tokens statements pos)
  show ?case
  proof
    assume none: "statements_loop (Suc n) rnd tokens statements pos = None"
    then have False: "\<not> length tokens \<le> pos"
      by (auto split: if_splits)
    from "2.prems" have "parseStatement n rnd tokens pos \<noteq> None"
      by (intro parseStatement_fuel) simp
    with none False obtain stmt p1
      where s: "parseStatement n rnd tokens pos = Some (Inr (stmt, p1))"
        and l: "statements_loop n rnd tokens (statements @ [stmt]) p1 = None"
      by (auto elim!: bindP_None)
    from s have "pos + 2 \<le> p1 \<and> p1 \<le> length tokens"
      by (rule parseStatement_progress)
    with "2.prems" have "2 * (length tokens - p1) + 3 \<le> n"
      by auto
    from "2.IH" [OF False this, of stmt] l show False
      by simp
  qed
qed simp

lemma parser_returns: "parser rnd tokens \<noteq> None"
  unfolding parser_def by (rule statements_loop_fuel) simp









lemma executeFlux_returns: "executeFlux rt code out h \<noteq> None"
  using parser_returns [of "rt_round rt" "lexer code"]
  by (auto simp: executeFlux_def split: option.splits sum.splits prod.splits)

section \<open>Declarations and references\<close>














section \<open>A script that calls a value that is not a function\<close>











section \<open>Undefined variables\<close>

lemma lexer_unset_plus_1: "lexer ''unset + 1;'' = [''unset'', ''+'', ''1'', '';'']"
  by code_simp

lemma parser_unset_plus_1:
  "parser rnd [''unset'', ''+'', ''1'', '';''] =
     Some (Inr ([ExprStmt (BinaryNode ''+'' (VariableNode ''unset'') (NumberNode (Fin 1)))], 4))"
  by code_simp

lemma unset_unbound: "env (new_interpreter out h) ''unset'' = None"
  by (simp add: new_interpreter_def builtInFunctions_def)

text \<open>
  C5: a variable node whose name is not bound evaluates to the error
  \<^verbatim>\<open>Undefined variable '<name>'\<close> and leaves the whole state as it was; a statement of
  the shape the parser builds that fails, with whatever error, leaves the environment
  as it was; and running \<^verbatim>\<open>unset + 1;\<close> ends with that error for \<^verbatim>\<open>unset\<close> in the
  initial interpreter, unchanged.
\<close>

theorem undefined_variable_error:
  "(env st name = None \<longrightarrow>
      eval rt (VariableNode name) st
        = (Inl (Error (''Undefined variable '' @ [CHR 0x27] @ name @ [CHR 0x27])), st))
   \<and> (is_statement s \<and> eval rt s st = (Inl e, st') \<longrightarrow> env st' = env st)
   \<and> executeFlux rt ''unset + 1;'' out h
        = Some (Some (Error (''Undefined variable '' @ [CHR 0x27] @ ''unset'' @ [CHR 0x27])),
                Some (new_interpreter out h))"
proof -
  have "executeFlux rt ''unset + 1;'' out h
      = Some (Some (Error (''Undefined variable '' @ [CHR 0x27] @ ''unset'' @ [CHR 0x27])),
              Some (new_interpreter out h))"
    unfolding executeFlux_def lexer_unset_plus_1 parser_unset_plus_1
    by (simp add: unset_unbound)
  then show ?thesis
    using failing_statement_env [of s rt st e st'] by simp
qed

theorem undefined_variable_error_witness:
  "env fresh ''unset'' = None
   \<and> eval plain_runtime (VariableNode ''unset'') fresh
       = (Inl (Error (''Undefined variable '' @ [CHR 0x27] @ ''unset'' @ [CHR 0x27])), fresh)
   \<and> is_statement (ExprStmt (BinaryNode ''+'' (VariableNode ''unset'') (NumberNode (Fin 1))))
   \<and> eval plain_runtime (ExprStmt (BinaryNode ''+'' (VariableNode ''unset'') (NumberNode (Fin 1))))
        fresh
       = (Inl (Error (''Undefined variable '' @ [CHR 0x27] @ ''unset'' @ [CHR 0x27])), fresh)"
proof -
  have u: "env fresh ''unset'' = None"
    unfolding fresh_def by (rule unset_unbound)
  show ?thesis
    using u undefined_variable_error [of fresh "''unset''" plain_runtime
        "ExprStmt (BinaryNode ''+'' (VariableNode ''unset'') (NumberNode (Fin 1)))"
        "Error (''Undefined variable '' @ [CHR 0x27] @ ''unset'' @ [CHR 0x27])" fresh "[]" "()"]
    by simp
qed

section \<open>Characters outside the token pattern\<close>

lemma takeWhile_stop: "\<not> P c \<Longrightarrow> takeWhile P (xs @ c # ys) = takeWhile P xs"
  by (induction xs) auto

lemma dropWhile_stop: "\<not> P c \<Longrightarrow> dropWhile P (xs @ c # ys) = dropWhile P xs @ c # ys"
  by (induction xs) auto

lemma ident_alt_stop:
  assumes "unmatched_char c"
  shows "ident_alt (s @ c # ys) = shift (c # ys) (ident_alt s)"
proof -
  from assms have "\<not> is_word c" and "\<not> is_word_start c"
    by (auto simp: unmatched_char_def is_word_def)
  then show ?thesis
    by (cases s) (simp_all add: ident_alt_def shift_def takeWhile_stop dropWhile_stop)
qed

lemma number_alt_stop:
  assumes "unmatched_char c"
  shows "number_alt (s @ c # ys) = shift (c # ys) (number_alt s)"
proof -
  from assms have d: "\<not> is_digit c" and dot: "c \<noteq> CHR ''.''"
    by (auto simp: unmatched_char_def is_word_def)
  define ds where "ds = takeWhile is_digit s"
  define r where "r = dropWhile is_digit s"
  define pick where "pick = (\<lambda>r. case r of
        [] \<Rightarrow> Some (ds, r)
      | d # r' \<Rightarrow>
          if d = CHR ''.'' \<and> takeWhile is_digit r' \<noteq> []
          then Some (ds @ d # takeWhile is_digit r', dropWhile is_digit r')
          else Some (ds, r))"
  have "number_alt (s @ c # ys) = (if ds = [] then None else pick (r @ c # ys))"
    unfolding number_alt_def Let_def ds_def r_def pick_def
      takeWhile_stop [of is_digit c, OF d] dropWhile_stop [of is_digit c, OF d]
    by simp
  also have "pick (r @ c # ys) = shift (c # ys) (pick r)"
    using d dot by (cases r) (simp_all add: pick_def shift_def takeWhile_stop dropWhile_stop)
  also have "(if ds = [] then None else shift (c # ys) (pick r))
      = shift (c # ys) (if ds = [] then None else pick r)"
    by (simp add: shift_def)
  also have "(if ds = [] then None else pick r) = number_alt s"
    unfolding number_alt_def Let_def ds_def r_def pick_def by simp
  finally show ?thesis .
qed

lemma quoted_alt_stop:
  assumes "unmatched_char c" and "quote_free s" and "q = CHR 0x22 \<or> q = CHR 0x27"
  shows "quoted_alt q (s @ c # ys) = shift (c # ys) (quoted_alt q s)"
  using assms
  by (cases s) (auto simp: quoted_alt_def shift_def unmatched_char_def quote_free_def)

lemma punct_alt_stop:
  assumes "unmatched_char c"
  shows "punct_alt (s @ c # ys) = shift (c # ys) (punct_alt s)"
  using assms by (cases s) (auto simp: punct_alt_def shift_def unmatched_char_def)

lemma prefix_stop:
  assumes "c \<notin> set lit"
  shows "prefix lit (s @ c # ys) = prefix lit s"
proof
  assume "prefix lit (s @ c # ys)"
  then consider "prefix lit s" | us where "lit = s @ us" and "prefix us (c # ys)"
    by (auto simp: prefix_append)
  then show "prefix lit s"
  proof cases
    case 2
    with assms have "us = []"
      by (cases us) auto
    with 2 show ?thesis by simp
  qed
next
  assume "prefix lit s"
  then show "prefix lit (s @ c # ys)"
    by (rule prefix_prefix)
qed

lemma literal_alt_stop:
  assumes "c \<notin> set lit"
  shows "literal_alt lit (s @ c # ys) = shift (c # ys) (literal_alt lit s)"
  using assms by (auto simp: literal_alt_def shift_def prefix_stop dest: prefix_length_le)

lemma unmatched_not_in_literals:
  assumes "unmatched_char c"
  shows "c \<notin> set ''=='' \<and> c \<notin> set ''!='' \<and> c \<notin> set ''<='' \<and> c \<notin> set ''>=''
    \<and> c \<notin> set ''&&'' \<and> c \<notin> set ''||'' \<and> c \<notin> set ''!''"
  using assms by (auto simp: unmatched_char_def is_punct_def)

lemma first_alt_stop:
  assumes "\<And>a. a \<in> set as \<Longrightarrow> a (s @ zs) = shift zs (a s)"
  shows "first_alt as (s @ zs) = shift zs (first_alt as s)"
  using assms
proof (induction as)
  case Nil
  show ?case by (simp add: shift_def)
next
  case (Cons a as)
  have h: "a (s @ zs) = shift zs (a s)"
    using Cons.prems by simp
  have ih: "first_alt as (s @ zs) = shift zs (first_alt as s)"
    using Cons by simp
  show ?case
    by (cases "a s") (simp_all add: h ih shift_def)
qed

lemma token_alts_stop:
  assumes "unmatched_char c" and "quote_free s"
  shows "first_alt token_alts (s @ c # ys) = shift (c # ys) (first_alt token_alts s)"
proof (rule first_alt_stop)
  fix a
  assume "a \<in> set token_alts"
  with assms unmatched_not_in_literals [OF assms(1)]
  show "a (s @ c # ys) = shift (c # ys) (a s)"
    unfolding token_alts_def
    by (auto simp: ident_alt_stop number_alt_stop quoted_alt_stop punct_alt_stop literal_alt_stop)
qed

lemma quote_free_dropWhile: "quote_free s \<Longrightarrow> quote_free (dropWhile P s)"
  unfolding quote_free_def by (meson set_dropWhileD)

lemma match_here_stop:
  assumes "unmatched_char c" and "quote_free s"
  shows "match_here (s @ c # ys) = shift (c # ys) (match_here s)"
proof -
  from assms(1) have sp: "\<not> is_space c"
    by (simp add: unmatched_char_def)
  have "first_alt token_alts (dropWhile is_space s @ c # ys)
      = shift (c # ys) (first_alt token_alts (dropWhile is_space s))"
    using assms by (intro token_alts_stop quote_free_dropWhile)
  then show ?thesis
    using sp by (auto simp: match_here_def shift_def dropWhile_stop split: option.splits)
qed

lemma ident_alt_suffix: "ident_alt s = Some (t, r) \<Longrightarrow> suffix r s"
  by (cases s) (auto simp: ident_alt_def suffix_dropWhile suffix_ConsI split: if_splits)

lemma number_alt_suffix:
  assumes "number_alt s = Some (t, r)"
  shows "suffix r s"
proof -
  let ?r = "dropWhile is_digit s"
  have s: "suffix ?r s"
    by (rule suffix_dropWhile)
  from assms have "r = ?r \<or> (\<exists>d r'. ?r = d # r' \<and> r = dropWhile is_digit r')"
    by (auto simp: number_alt_def Let_def split: if_splits list.splits)
  then show ?thesis
  proof
    assume "r = ?r"
    with s show ?thesis by simp
  next
    assume "\<exists>d r'. ?r = d # r' \<and> r = dropWhile is_digit r'"
    then obtain d r' where eq: "?r = d # r'" and r: "r = dropWhile is_digit r'"
      by blast
    have "suffix r r'"
      unfolding r by (rule suffix_dropWhile)
    then have "suffix r ?r"
      unfolding eq by (rule suffix_ConsI)
    then show ?thesis
      using s by (rule suffix_order.trans)
  qed
qed

lemma quoted_alt_suffix: "quoted_alt q s = Some (t, r) \<Longrightarrow> suffix r s"
proof (cases s)
  case Nil
  assume "quoted_alt q s = Some (t, r)"
  with Nil show ?thesis by (simp add: quoted_alt_def)
next
  case (Cons c cs)
  assume "quoted_alt q s = Some (t, r)"
  with Cons have r: "r = tl (dropWhile (\<lambda>x. x \<noteq> q) cs)"
    by (auto simp: quoted_alt_def split: if_splits)
  have "suffix r (dropWhile (\<lambda>x. x \<noteq> q) cs)"
    unfolding r by (rule suffix_tl)
  also have "suffix \<dots> cs"
    by (rule suffix_dropWhile)
  also have "suffix cs s"
    unfolding Cons by (simp add: suffix_ConsI)
  finally show ?thesis .
qed

lemma punct_alt_suffix: "punct_alt s = Some (t, r) \<Longrightarrow> suffix r s"
  by (cases s) (auto simp: punct_alt_def suffix_ConsI split: if_splits)

lemma literal_alt_suffix: "literal_alt lit s = Some (t, r) \<Longrightarrow> suffix r s"
  by (auto simp: literal_alt_def suffix_drop split: if_splits)

lemma first_alt_suffix:
  assumes "first_alt as s = Some (tok, r)"
    and "\<And>a t r'. a \<in> set as \<Longrightarrow> a s = Some (t, r') \<Longrightarrow> suffix r' s"
  shows "suffix r s"
  using assms by (induction as) (auto split: option.splits)

lemma token_alts_suffix:
  assumes "a \<in> set token_alts" and "a s = Some (t, r)"
  shows "suffix r s"
  using assms ident_alt_suffix [of s t r] number_alt_suffix [of s t r]
    quoted_alt_suffix [of _ s t r] punct_alt_suffix [of s t r]
    literal_alt_suffix [of _ s t r]
  unfolding token_alts_def by auto

lemma match_here_suffix:
  assumes "match_here s = Some (tok, r)"
  shows "suffix r s"
proof -
  from assms obtain r0 where f: "first_alt token_alts (dropWhile is_space s) = Some (tok, r0)"
    and r: "r = dropWhile is_space r0"
    by (auto simp: match_here_def split: option.splits)
  have "suffix r r0"
    unfolding r by (rule suffix_dropWhile)
  also have "suffix r0 (dropWhile is_space s)"
    using first_alt_suffix [OF f] token_alts_suffix by blast
  also have "suffix \<dots> s"
    by (rule suffix_dropWhile)
  finally show ?thesis .
qed

lemma quote_free_suffix: "suffix r s \<Longrightarrow> quote_free s \<Longrightarrow> quote_free r"
  unfolding quote_free_def by (auto dest: set_mono_suffix)

lemma match_here_unmatched: "unmatched_char c \<Longrightarrow> match_here (c # ys) = None"
  using match_here_stop [of c "[]" ys]
  by (simp add: quote_free_def shift_def match_here_def token_alts_def ident_alt_def
      number_alt_def quoted_alt_def punct_alt_def literal_alt_def)

text \<open>
  C1, as the code behaves: the lexer has no failure. A character that occurs in no
  alternative of the token pattern, met after a text without quote characters, is
  skipped: the tokens of the text before it are followed by the tokens of the text
  after it.
\<close>

theorem lexer_skips_unmatched_char:
  assumes "unmatched_char c" and "quote_free xs"
  shows "lexer (xs @ c # ys) = lexer xs @ lexer ys"
  using assms(2)
proof (induction xs rule: lexer.induct)
  case 1
  show ?case
    using match_here_unmatched [OF assms(1), of ys] by simp
next
  case (2 x xs)
  have m: "match_here ((x # xs) @ c # ys) = shift (c # ys) (match_here (x # xs))"
    using assms(1) "2.prems" by (rule match_here_stop)
  show ?case
  proof (cases "match_here (x # xs)")
    case None
    from "2.prems" have "quote_free xs"
      by (simp add: quote_free_def)
    with "2.IH"(1) [OF None] m None show ?thesis
      by (simp add: shift_def)
  next
    case (Some a)
    obtain tok r where a: "a = (tok, r)"
      by (cases a)
    from Some a have "suffix r (x # xs)"
      by (auto dest: match_here_suffix)
    then have "quote_free r"
      using "2.prems" by (rule quote_free_suffix)
    with "2.IH"(2) [OF Some a [symmetric]] m Some a show ?thesis
      by (simp add: shift_def)
  qed
qed

theorem lexer_skips_unmatched_char_witness:
  "unmatched_char (CHR ''@'') \<and> quote_free ''1 + ''
   \<and> lexer ''1 + @2;'' = lexer ''1 + '' @ lexer ''2;''"
proof -
  have u: "unmatched_char (CHR ''@'')"
    by code_simp
  have q: "quote_free ''1 + ''"
    by code_simp
  show ?thesis
    using u q lexer_skips_unmatched_char [OF u q, of "''2;''"] by simp
qed

text \<open>
  The character \<^verbatim>\<open>@\<close> occurs in no alternative and no alternative matches at it, yet
  the lexer returns the tokens on both sides of it for \<^verbatim>\<open>1@2\<close>.
\<close>

theorem lexer_returns_tokens_around_unmatched_char:
  "unmatched_char (CHR ''@'') \<and> first_alt token_alts ''@2'' = None
   \<and> lexer ''1@2'' = [''1'', ''2'']"
  by code_simp

end
